theory Spec2Isabelle
  imports Main "HOL-Library.Multiset"
begin

section \<open>Data model\<close>

text \<open>
  The package \<open>reviewer\<close> reads values of the packages \<open>policy/common\<close> and \<open>pull\<close>.
  Only the fields that \<open>reviewer.go\<close> reads are modelled.
\<close>

text \<open>
  Modelled from the spec: the evaluation status of \<open>common.Result\<close>, whose declaration
  is outside the source file; the spec lists approved, pending, disapproved and skipped.
\<close>

datatype status = StatusSkipped | StatusPending | StatusApproved | StatusDisapproved

text \<open>A Go \<open>error\<close> value: one made by a collaborator, or one wrapped with a message.\<close>

datatype error = New string | Wrap error string

text \<open>
  \<open>common.ReviewRequestRule\<close>, with the six fields that \<open>FindRandomRequesters\<close> reads.
  \<open>RequiredCount\<close> is a Go \<open>int\<close>; it is only compared with lengths and multiplied by
  five below the length of a slice, so it is an unbounded integer here.
\<close>

record request_rule =
  Users :: "string list"
  Teams :: "string list"
  Organizations :: "string list"
  Admins :: bool
  WriteCollaborators :: bool
  RequiredCount :: int

text \<open>\<open>common.Result\<close>: a node of the evaluation tree. A nil \<open>Error\<close> is \<open>None\<close>.\<close>

datatype result =
  Result (Status: status) (Error: "error option")
         (ReviewRequestRule: request_rule) (Children: "result list")

text \<open>A run-time panic of the Go program, with the values its message is built from.\<close>

datatype panic =
  UnableToSelect int nat
| IndexOutOfRange nat nat

section \<open>The tree walk\<close>

text \<open>
  \<open>findLeafChildren\<close>: a childless node is returned when it is pending and has no error;
  otherwise the loop over the children appends the leaves of each pending child to \<open>r\<close>.
\<close>

fun findLeafChildren :: "result \<Rightarrow> result list"
  and findLeafChildren_loop :: "result list \<Rightarrow> result list \<Rightarrow> result list" where
  "findLeafChildren (Result st er rl cs) =
     (if length cs = 0
      then (if st = StatusPending \<and> er = None then [Result st er rl cs] else [])
      else findLeafChildren_loop cs [])"
| "findLeafChildren_loop [] r = r"
| "findLeafChildren_loop (c # cs) r =
     (if Status c = StatusPending
      then findLeafChildren_loop cs (r @ findLeafChildren c)
      else findLeafChildren_loop cs r)"

section \<open>The random source\<close>

text \<open>
  \<open>*rand.Rand\<close> is a generator with an internal state. Its state here is the number of
  values drawn so far from a fixed infinite sequence; \<open>Intn r k\<close> answers a value below
  \<open>k\<close> and advances. Every sequence of answers of a real generator is the image of some
  \<open>draws\<close>. Go's \<open>Intn\<close> panics for \<open>k \<le> 0\<close>; each call below is guarded by a test
  that makes \<open>k\<close> positive.
\<close>

record rand =
  draws :: "nat \<Rightarrow> nat"
  used :: nat

definition Intn :: "rand \<Rightarrow> nat \<Rightarrow> nat \<times> rand" where
  "Intn r k = (draws r (used r) mod k, r\<lparr>used := used r + 1\<rparr>)"

section \<open>The sampler\<close>

text \<open>
  The inner \<open>for\<close> of \<open>selectRandomUsers\<close>: \<open>j\<close> counts the draws that hit an index
  already selected. \<open>selected\<close> is a \<open>map[int]bool\<close>, whose missing keys read
  \<open>false\<close>: a total function.
\<close>

function selectRandomUsers_draw ::
  "int \<Rightarrow> string list \<Rightarrow> (nat \<Rightarrow> bool) \<Rightarrow> string list \<Rightarrow> int \<Rightarrow> rand
     \<Rightarrow> panic + ((nat \<Rightarrow> bool) \<times> string list \<times> rand)" where
  "selectRandomUsers_draw n users selected selections j r =
     (if j > n * 5 then Inl (UnableToSelect n (length users))
      else (let (m, r') = Intn r (length users) in
            if \<not> selected m
            then Inr (selected(m := True), selections @ [users ! m], r')
            else selectRandomUsers_draw n users selected selections (j + 1) r'))"
  by pat_completeness auto
termination
  by (relation "measure (\<lambda>(n, users, selected, selections, j, r). nat (n * 5 + 1 - j))") auto

declare selectRandomUsers_draw.simps [simp del]

text \<open>The outer \<open>for i := 0; i < n; i++\<close>, which starts every element with \<open>j := 0\<close>.\<close>

function selectRandomUsers_loop ::
  "int \<Rightarrow> string list \<Rightarrow> int \<Rightarrow> (nat \<Rightarrow> bool) \<Rightarrow> string list \<Rightarrow> rand
     \<Rightarrow> panic + (string list \<times> rand)" where
  "selectRandomUsers_loop n users i selected selections r =
     (if i < n
      then (case selectRandomUsers_draw n users selected selections 0 r of
              Inl p \<Rightarrow> Inl p
            | Inr (selected', selections', r') \<Rightarrow>
                selectRandomUsers_loop n users (i + 1) selected' selections' r')
      else Inr (selections, r))"
  by pat_completeness auto
termination
  by (relation "measure (\<lambda>(n, users, i, selected, selections, r). nat (n - i))") auto

declare selectRandomUsers_loop.simps [simp del]

definition selectRandomUsers :: "int \<Rightarrow> string list \<Rightarrow> rand \<Rightarrow> panic + (string list \<times> rand)" where
  "selectRandomUsers n users r =
     (if n = 0 then Inr ([], r)
      else if n \<ge> int (length users) then Inr (users, r)
      else selectRandomUsers_loop n users 0 (\<lambda>_. False) [] r)"

section \<open>Go maps\<close>

text \<open>
  A \<open>map[string]struct{}\<close> is a set of keys, kept as a list without repetition.
  \<open>shoveIntoMap\<close> stores every element of \<open>u\<close> as a key of \<open>m\<close>.
\<close>

fun shoveIntoMap :: "string list \<Rightarrow> string list \<Rightarrow> string list" where
  "shoveIntoMap m [] = m"
| "shoveIntoMap m (n # u) = shoveIntoMap (if n \<in> set m then m else m @ [n]) u"

text \<open>
  The collaborator permissions are a \<open>map[string]string\<close> from identity to permission
  level: the value type is the key type, since the source indexes the map with its own
  values and with the keys of the candidate map. It is kept as an association list read
  with \<open>map_of\<close>. \<open>mapKeys\<close> are its keys, \<open>mapIndex\<close> is the index expression
  \<open>m[k]\<close>, which reads the empty string at a missing key.
\<close>

type_synonym permissions = "(string \<times> string) list"

definition mapKeys :: "permissions \<Rightarrow> string list" where
  "mapKeys m = remdups (map fst m)"

definition mapIndex :: "permissions \<Rightarrow> string \<Rightarrow> string" where
  "mapIndex m k = (case map_of m k of None \<Rightarrow> [] | Some v \<Rightarrow> v)"

text \<open>
  Modelled from the spec: the constants \<open>common.GithubAdminPermission\<close> and
  \<open>common.GithubWritePermission\<close>, declared outside the source file; the spec names the
  permission levels admin and write.
\<close>

definition GithubAdminPermission :: string where
  "GithubAdminPermission = ''admin''"

definition GithubWritePermission :: string where
  "GithubWritePermission = ''write''"

section \<open>The pull-request context and the world\<close>

text \<open>
  \<open>pull.Context\<close> is an interface. Its listing methods answer a value together with
  an error, as Go functions do, and may answer differently from call to call: they read
  and change a state \<open>'c\<close> of the implementation. The author of the pull request is fixed.
\<close>

record 'c pull_context =
  Author :: string
  ListTeamMembers :: "string \<Rightarrow> string \<Rightarrow> 'c \<Rightarrow> (string list \<times> error option) \<times> 'c"
  ListOrganizationMembers :: "string \<Rightarrow> 'c \<Rightarrow> (string list \<times> error option) \<times> 'c"
  ListRepositoryCollaborators :: "'c \<Rightarrow> (permissions \<times> error option) \<times> 'c"

datatype call =
  CallListTeamMembers string string
| CallListOrganizationMembers string
| CallListRepositoryCollaborators

text \<open>
  Everything a run reads or changes besides its arguments: the random source \<open>r\<close>, the
  state of the context, the listing calls made so far, and the order in which the Go
  runtime visits the keys of a map in a \<open>range\<close> statement. Go leaves that order
  unspecified: \<open>mapOrder w i ks\<close> is the order of the \<open>i\<close>-th \<open>range\<close> over a map
  with keys \<open>ks\<close>.
\<close>

record 'c world =
  rnd :: rand
  prstate :: 'c
  calls :: "call list"
  nranges :: nat
  mapOrder :: "nat \<Rightarrow> string list \<Rightarrow> string list"

definition rangeMap :: "'c world \<Rightarrow> string list \<Rightarrow> string list \<times> 'c world" where
  "rangeMap w ks = (mapOrder w (nranges w) ks, w\<lparr>nranges := nranges w + 1\<rparr>)"

text \<open>A runtime visits every key of a map once: each order is a permutation of the keys.\<close>

definition visitsEachKeyOnce :: "'c world \<Rightarrow> bool" where
  "visitsEachKeyOnce w = (\<forall>i ks. mset (mapOrder w i ks) = mset ks)"

section \<open>Team selection\<close>

text \<open>\<open>strings.Split s sep\<close> for a separator of one character.\<close>

fun Split :: "string \<Rightarrow> char \<Rightarrow> string list" where
  "Split [] sep = [[]]"
| "Split (c # cs) sep =
     (if c = sep then [] # Split cs sep
      else (let ps = Split cs sep in (c # hd ps) # tl ps))"

text \<open>
  \<open>selectTeamMembers\<close>: one team is drawn, its reference is split at the slashes, and
  the members are listed. \<open>teamInfo[1]\<close> panics on a reference without a slash. On a
  listing error the members are dropped and the wrapped error is returned.
\<close>

definition selectTeamMembers ::
  "'c pull_context \<Rightarrow> string list \<Rightarrow> 'c world \<Rightarrow> panic + ((string list \<times> error option) \<times> 'c world)" where
  "selectTeamMembers prctx allTeams w =
     (let (i, r') = Intn (rnd w) (length allTeams);
          randomTeam = allTeams ! i;
          teamInfo = Split randomTeam (CHR ''/'')
      in if length teamInfo < 2 then Inl (IndexOutOfRange 1 (length teamInfo))
         else (let ((teamMembers, err), c') =
                     ListTeamMembers prctx (teamInfo ! 0) (teamInfo ! 1) (prstate w);
                   w' = w\<lparr>rnd := r', prstate := c',
                          calls := calls w @ [CallListTeamMembers (teamInfo ! 0) (teamInfo ! 1)]\<rparr>
               in case err of
                    Some e \<Rightarrow>
                      Inr (([], Some (Wrap e (''Unable to get member listing for team '' @ randomTeam))), w')
                  | None \<Rightarrow> Inr ((teamMembers, None), w')))"

section \<open>The orchestrator\<close>

text \<open>
  The body of the loop of \<open>FindRandomRequesters\<close> over the pending leaves, block by
  block. The logger is left out: it changes nothing that is returned.
\<close>

text \<open>The block \<open>if len(child.ReviewRequestRule.Teams) > 0\<close>.\<close>

definition FindRandomRequesters_teams ::
  "'c pull_context \<Rightarrow> request_rule \<Rightarrow> string list \<Rightarrow> 'c world \<Rightarrow> panic + (string list \<times> 'c world)" where
  "FindRandomRequesters_teams prctx rl allUsers w =
     (if length (Teams rl) > 0
      then (case selectTeamMembers prctx (Teams rl) w of
              Inl p \<Rightarrow> Inl p
            | Inr ((teamMembers, err), w') \<Rightarrow> Inr (shoveIntoMap allUsers teamMembers, w'))
      else Inr (allUsers, w))"

text \<open>
  The block \<open>if len(child.ReviewRequestRule.Organizations) > 0\<close>: whatever members the
  context answers are stored, with or without an error.
\<close>

definition FindRandomRequesters_orgs ::
  "'c pull_context \<Rightarrow> request_rule \<Rightarrow> string list \<Rightarrow> 'c world \<Rightarrow> string list \<times> 'c world" where
  "FindRandomRequesters_orgs prctx rl allUsers w =
     (if length (Organizations rl) > 0
      then (let (i, r') = Intn (rnd w) (length (Organizations rl));
                randomOrg = Organizations rl ! i;
                ((orgMembers, err), c') = ListOrganizationMembers prctx randomOrg (prstate w);
                w' = w\<lparr>rnd := r', prstate := c',
                       calls := calls w @ [CallListOrganizationMembers randomOrg]\<rparr>
            in (shoveIntoMap allUsers orgMembers, w'))
      else (allUsers, w))"

text \<open>
  The loop \<open>for _, c := range allCollaboratorPermissions\<close>: the second variable of a
  \<open>range\<close> over a map is the value stored at the visited key, so \<open>c\<close> is a permission
  level, and it is \<open>c\<close> that indexes the map and is appended.
\<close>

fun collectPermission :: "permissions \<Rightarrow> string \<Rightarrow> string list \<Rightarrow> string list \<Rightarrow> string list" where
  "collectPermission perms level [] found = found"
| "collectPermission perms level (k # ks) found =
     (let c = mapIndex perms k
      in if mapIndex perms c = level
         then collectPermission perms level ks (found @ [c])
         else collectPermission perms level ks found)"

text \<open>The blocks \<open>if child.ReviewRequestRule.Admins\<close> and \<open>.WriteCollaborators\<close>.\<close>

definition FindRandomRequesters_admins ::
  "request_rule \<Rightarrow> permissions \<Rightarrow> string list \<Rightarrow> 'c world \<Rightarrow> string list \<times> 'c world" where
  "FindRandomRequesters_admins rl allCollaboratorPermissions allUsers w =
     (if Admins rl
      then (let (ks, w') = rangeMap w (mapKeys allCollaboratorPermissions);
                repoAdmins = collectPermission allCollaboratorPermissions GithubAdminPermission ks []
            in (shoveIntoMap allUsers repoAdmins, w'))
      else (allUsers, w))"

definition FindRandomRequesters_writers ::
  "request_rule \<Rightarrow> permissions \<Rightarrow> string list \<Rightarrow> 'c world \<Rightarrow> string list \<times> 'c world" where
  "FindRandomRequesters_writers rl allCollaboratorPermissions allUsers w =
     (if WriteCollaborators rl
      then (let (ks, w') = rangeMap w (mapKeys allCollaboratorPermissions);
                repoCollaborators = collectPermission allCollaboratorPermissions GithubWritePermission ks []
            in (shoveIntoMap allUsers repoCollaborators, w'))
      else (allUsers, w))"

text \<open>
  The loop \<open>for u := range allUsers\<close>, which keeps the candidates that are keys of the
  permission map and are not the author.
\<close>

fun keepEligible :: "'c pull_context \<Rightarrow> permissions \<Rightarrow> string list \<Rightarrow> string list \<Rightarrow> string list" where
  "keepEligible prctx perms [] allUserList = allUserList"
| "keepEligible prctx perms (u # us) allUserList =
     (let ok = (map_of perms u \<noteq> None)
      in if u \<noteq> Author prctx \<and> ok
         then keepEligible prctx perms us (allUserList @ [u])
         else keepEligible prctx perms us allUserList)"

definition FindRandomRequesters_filter ::
  "'c pull_context \<Rightarrow> permissions \<Rightarrow> string list \<Rightarrow> 'c world \<Rightarrow> string list \<times> 'c world" where
  "FindRandomRequesters_filter prctx allCollaboratorPermissions allUsers w =
     (let (us, w') = rangeMap w allUsers
      in (keepEligible prctx allCollaboratorPermissions us [], w'))"

text \<open>
  The candidate map of one leaf, up to the listing of the collaborators: the explicit
  users, then the team block, then the organization block.
\<close>

definition FindRandomRequesters_members ::
  "'c pull_context \<Rightarrow> request_rule \<Rightarrow> 'c world \<Rightarrow> panic + (string list \<times> 'c world)" where
  "FindRandomRequesters_members prctx rl w =
     (case FindRandomRequesters_teams prctx rl (shoveIntoMap [] (Users rl)) w of
        Inl p \<Rightarrow> Inl p
      | Inr (allUsers, w') \<Rightarrow> Inr (FindRandomRequesters_orgs prctx rl allUsers w'))"

text \<open>
  The candidate map of one leaf as it reaches the filter: the members above, the listing
  of the collaborators with its early \<open>return nil, err\<close> (\<open>Inl\<close> of the inner sum),
  then the admin block and the write-collaborator block.
\<close>

definition FindRandomRequesters_candidates ::
  "'c pull_context \<Rightarrow> request_rule \<Rightarrow> 'c world
     \<Rightarrow> panic + ((error + permissions \<times> string list) \<times> 'c world)" where
  "FindRandomRequesters_candidates prctx rl w =
     (case FindRandomRequesters_members prctx rl w of
        Inl p \<Rightarrow> Inl p
      | Inr (allUsers, w1) \<Rightarrow>
          (let ((allCollaboratorPermissions, err), c') = ListRepositoryCollaborators prctx (prstate w1);
               w2 = w1\<lparr>prstate := c', calls := calls w1 @ [CallListRepositoryCollaborators]\<rparr>
           in case err of
                Some e \<Rightarrow> Inr (Inl (Wrap e ''Unable to list repository collaborators''), w2)
              | None \<Rightarrow>
                  (let (allUsers3, w3) =
                         FindRandomRequesters_admins rl allCollaboratorPermissions allUsers w2;
                       (allUsers4, w4) =
                         FindRandomRequesters_writers rl allCollaboratorPermissions allUsers3 w3
                   in Inr (Inr (allCollaboratorPermissions, allUsers4), w4))))"

text \<open>
  One pass of the loop body: the candidates, the filter and the sampler. It ends in a
  panic, in the early return, or with the selection of the leaf.
\<close>

definition FindRandomRequesters_body ::
  "'c pull_context \<Rightarrow> result \<Rightarrow> 'c world \<Rightarrow> panic + ((error + string list) \<times> 'c world)" where
  "FindRandomRequesters_body prctx child w =
     (case FindRandomRequesters_candidates prctx (ReviewRequestRule child) w of
        Inl p \<Rightarrow> Inl p
      | Inr (Inl e, w2) \<Rightarrow> Inr (Inl e, w2)
      | Inr (Inr (allCollaboratorPermissions, allUsers), w4) \<Rightarrow>
          (let (allUserList, w5) =
                 FindRandomRequesters_filter prctx allCollaboratorPermissions allUsers w4
           in case selectRandomUsers (RequiredCount (ReviewRequestRule child))
                     allUserList (rnd w5) of
                Inl p \<Rightarrow> Inl p
              | Inr (randomSelection, r') \<Rightarrow> Inr (Inr randomSelection, w5\<lparr>rnd := r'\<rparr>)))"

text \<open>
  The loop \<open>for _, child := range pendingLeafNodes\<close>. A call of the function ends in a
  panic or returns a pair of a slice and an error; a nil slice is the empty list.
\<close>

fun FindRandomRequesters_loop ::
  "'c pull_context \<Rightarrow> result list \<Rightarrow> string list \<Rightarrow> 'c world
     \<Rightarrow> panic + ((string list \<times> error option) \<times> 'c world)" where
  "FindRandomRequesters_loop prctx [] requestedUsers w = Inr ((requestedUsers, None), w)"
| "FindRandomRequesters_loop prctx (child # rest) requestedUsers w =
     (case FindRandomRequesters_body prctx child w of
        Inl p \<Rightarrow> Inl p
      | Inr (Inl e, w') \<Rightarrow> Inr (([], Some e), w')
      | Inr (Inr randomSelection, w') \<Rightarrow>
          FindRandomRequesters_loop prctx rest (requestedUsers @ randomSelection) w')"

definition FindRandomRequesters ::
  "'c pull_context \<Rightarrow> result \<Rightarrow> 'c world \<Rightarrow> panic + ((string list \<times> error option) \<times> 'c world)" where
  "FindRandomRequesters prctx result w =
     FindRandomRequesters_loop prctx (findLeafChildren result) [] w"

section \<open>Specification vocabulary\<close>

text \<open>
  Every childless node of a tree, from left to right, each with its proper ancestors
  from the root down. This enumeration does not look at any status.
\<close>

fun leafPaths :: "result \<Rightarrow> (result list \<times> result) list" where
  "leafPaths (Result st er rl cs) =
     (if cs = [] then [([], Result st er rl cs)]
      else map (\<lambda>(p, l). (Result st er rl cs # p, l)) (concat (map leafPaths cs)))"

definition pendingLeaf :: "result \<Rightarrow> bool" where
  "pendingLeaf l = (Status l = StatusPending \<and> Error l = None)"

definition allPending :: "result list \<Rightarrow> bool" where
  "allPending p = list_all (\<lambda>a. Status a = StatusPending) p"

text \<open>
  The spec's words for the tree walk: a pending leaf without error none of whose
  ancestors within the tree, the root included, is non-pending.
\<close>

definition reached :: "result list \<times> result \<Rightarrow> bool" where
  "reached pl = (pendingLeaf (snd pl) \<and> allPending (fst pl))"

text \<open>The same with the root left out of the ancestors that are tested.\<close>

definition reachedBelowRoot :: "result list \<times> result \<Rightarrow> bool" where
  "reachedBelowRoot pl = (pendingLeaf (snd pl) \<and> allPending (tl (fst pl)))"

section \<open>Concrete inputs\<close>

definition usersOnly :: "string list \<Rightarrow> int \<Rightarrow> request_rule" where
  "usersOnly us n = \<lparr>Users = us, Teams = [], Organizations = [], Admins = False,
     WriteCollaborators = False, RequiredCount = n\<rparr>"

definition leafA :: result where
  "leafA = Result StatusPending None (usersOnly [''a''] 1) []"

definition leafB :: result where
  "leafB = Result StatusPending None (usersOnly [''b''] 1) []"

definition leafFailed :: result where
  "leafFailed = Result StatusPending (Some (New ''boom'')) (usersOnly [''c''] 1) []"

text \<open>An approved root above a pending leaf.\<close>

definition treeApprovedRoot :: result where
  "treeApprovedRoot = Result StatusApproved None (usersOnly [] 0) [leafA]"

text \<open>
  A pending root above a pending leaf, a disapproved node with a pending leaf below it,
  a pending node with a pending leaf below it, and a pending leaf that carries an error.
\<close>

definition treeMixed :: result where
  "treeMixed = Result StatusPending None (usersOnly [] 0)
     [leafA,
      Result StatusDisapproved None (usersOnly [] 0) [leafA],
      Result StatusPending None (usersOnly [] 0) [leafB],
      leafFailed]"

text \<open>Random sources: always zero; 0, 1, 2, ...; and one that repeats index 0 ten times
  before each of the indices 1 and 2.\<close>

definition randZero :: rand where
  "randZero = \<lparr>draws = (\<lambda>k. 0), used = 0\<rparr>"

definition randCount :: rand where
  "randCount = \<lparr>draws = (\<lambda>k. k), used = 0\<rparr>"

definition randCollide :: rand where
  "randCollide = \<lparr>draws = (\<lambda>k. if k < 11 then 0 else if k = 11 then 1 else if k < 22 then 0 else 2),
     used = 0\<rparr>"

definition fourUsers :: "string list" where
  "fourUsers = [''a'', ''b'', ''c'', ''d'']"

text \<open>
  Contexts whose state counts the listing calls made. \<open>staticContext\<close> answers every
  listing with the same fixed answer; \<open>flakyContext\<close> lists the collaborators once and
  fails from the second call on.
\<close>

definition staticContext ::
  "string \<Rightarrow> string list \<times> error option \<Rightarrow> string list \<times> error option
     \<Rightarrow> permissions \<times> error option \<Rightarrow> nat pull_context" where
  "staticContext author team org collab =
     \<lparr>Author = author,
      ListTeamMembers = (\<lambda>_ _ c. (team, Suc c)),
      ListOrganizationMembers = (\<lambda>_ c. (org, Suc c)),
      ListRepositoryCollaborators = (\<lambda>c. (collab, Suc c))\<rparr>"

definition flakyContext :: "string \<Rightarrow> permissions \<Rightarrow> nat pull_context" where
  "flakyContext author perms =
     \<lparr>Author = author,
      ListTeamMembers = (\<lambda>_ _ c. (([], None), Suc c)),
      ListOrganizationMembers = (\<lambda>_ c. (([], None), Suc c)),
      ListRepositoryCollaborators =
        (\<lambda>c. (if c = 0 then (perms, None) else ([], Some (New ''unavailable'')), Suc c))\<rparr>"

text \<open>A world at the start of a run, with a random source and a map order.\<close>

definition world0 :: "rand \<Rightarrow> (nat \<Rightarrow> string list \<Rightarrow> string list) \<Rightarrow> nat world" where
  "world0 r ord = \<lparr>rnd = r, prstate = 0, calls = [], nranges = 0, mapOrder = ord\<rparr>"

definition adminRule :: request_rule where
  "adminRule = \<lparr>Users = [], Teams = [], Organizations = [], Admins = True,
     WriteCollaborators = False, RequiredCount = 1\<rparr>"

definition writeRule :: request_rule where
  "writeRule = \<lparr>Users = [], Teams = [], Organizations = [], Admins = False,
     WriteCollaborators = True, RequiredCount = 1\<rparr>"

definition orgRule :: request_rule where
  "orgRule = \<lparr>Users = [''a''], Teams = [], Organizations = [''acme''], Admins = False,
     WriteCollaborators = False, RequiredCount = 2\<rparr>"

definition teamRule :: request_rule where
  "teamRule = \<lparr>Users = [''a''], Teams = [''org/team1''], Organizations = [], Admins = False,
     WriteCollaborators = False, RequiredCount = 1\<rparr>"

definition alicePerms :: permissions where
  "alicePerms = [(''alice'', ''admin''), (''carol'', ''write'')]"

definition readers :: "string list \<Rightarrow> permissions" where
  "readers us = map (\<lambda>u. (u, ''read'')) us"

section \<open>Runs that differ in the map order\<close>

text \<open>
  Two worlds agree on everything but the order of map iteration, and two outcomes of
  \<open>FindRandomRequesters\<close> agree in everything but the identities returned: the same
  panic, or the same error, as many reviewers, and worlds that agree.
\<close>

definition agreeButMapOrder :: "'c world \<Rightarrow> 'c world \<Rightarrow> bool" where
  "agreeButMapOrder w1 w2 = (rnd w1 = rnd w2 \<and> prstate w1 = prstate w2 \<and> calls w1 = calls w2)"

fun sameButIdentities ::
  "panic + ((string list \<times> error option) \<times> 'c world)
     \<Rightarrow> panic + ((string list \<times> error option) \<times> 'c world) \<Rightarrow> bool" where
  "sameButIdentities (Inl p) (Inl q) = (p = q)"
| "sameButIdentities (Inr ((us, e), w)) (Inr ((us', e'), w')) =
     (length us = length us' \<and> e = e' \<and> agreeButMapOrder w w')"
| "sameButIdentities (Inl p) (Inr y) = False"
| "sameButIdentities (Inr x) (Inl q) = False"

section \<open>The sources of a candidate pool\<close>

text \<open>
  What each block of the loop body contributes for one rule, in the spec's terms: the
  members of the team that was drawn (none when the rule has no team, or on a panic),
  the members that the context answered for the organization that was drawn, and the
  identities that the admin and the write-collaborator loops collected.
\<close>

definition teamSource :: "'c pull_context \<Rightarrow> request_rule \<Rightarrow> 'c world \<Rightarrow> string list" where
  "teamSource prctx rl w =
     (if length (Teams rl) > 0
      then (case selectTeamMembers prctx (Teams rl) w of
              Inl p \<Rightarrow> []
            | Inr ((teamMembers, err), w') \<Rightarrow> teamMembers)
      else [])"

definition orgSource :: "'c pull_context \<Rightarrow> request_rule \<Rightarrow> 'c world \<Rightarrow> string list" where
  "orgSource prctx rl w =
     (if length (Organizations rl) > 0
      then fst (fst (ListOrganizationMembers prctx
                       (Organizations rl ! fst (Intn (rnd w) (length (Organizations rl))))
                       (prstate w)))
      else [])"

definition adminSource :: "request_rule \<Rightarrow> permissions \<Rightarrow> 'c world \<Rightarrow> string list" where
  "adminSource rl perms w =
     (if Admins rl
      then collectPermission perms GithubAdminPermission (fst (rangeMap w (mapKeys perms))) []
      else [])"

definition writeSource :: "request_rule \<Rightarrow> permissions \<Rightarrow> 'c world \<Rightarrow> string list" where
  "writeSource rl perms w =
     (if WriteCollaborators rl
      then collectPermission perms GithubWritePermission (fst (rangeMap w (mapKeys perms))) []
      else [])"

section \<open>More concrete inputs\<close>

text \<open>A rule that names the author, a stranger to the repository, and a collaborator.\<close>

definition namedRule :: request_rule where
  "namedRule = usersOnly [''author'', ''stranger'', ''carol''] 3"

text \<open>A rule with every kind of source.\<close>

definition fullRule :: request_rule where
  "fullRule = \<lparr>Users = [''a''], Teams = [''org/team1''], Organizations = [''acme''],
     Admins = True, WriteCollaborators = True, RequiredCount = 2\<rparr>"

text \<open>
  A permission map in which the identity named admin is an admin and the identity named
  write has write permission.
\<close>

definition levelNamedPerms :: permissions where
  "levelNamedPerms = [(''admin'', ''admin''), (''write'', ''write''), (''a'', ''read'')]"

definition xyLeaf :: result where
  "xyLeaf = Result StatusPending None (usersOnly [''x'', ''y''] 1) []"

section \<open>What two runs share when only the map order differs\<close>

text \<open>
  The parts of a world other than the map order, and the outcomes of the sampler, of the
  loop body and of the loop with every list of identities replaced by its length.
\<close>

definition worldCore :: "'c world \<Rightarrow> rand \<times> 'c \<times> call list" where
  "worldCore w = (rnd w, prstate w, calls w)"

definition drawShape ::
  "panic + ((nat \<Rightarrow> bool) \<times> string list \<times> rand) \<Rightarrow> panic + ((nat \<Rightarrow> bool) \<times> nat \<times> rand)" where
  "drawShape x = map_sum id (\<lambda>(s, sels, r). (s, length sels, r)) x"

definition sampleShape :: "panic + (string list \<times> rand) \<Rightarrow> panic + (nat \<times> rand)" where
  "sampleShape x = map_sum id (\<lambda>(sels, r). (length sels, r)) x"

definition bodyShape ::
  "panic + ((error + string list) \<times> 'c world) \<Rightarrow> panic + ((error + nat) \<times> (rand \<times> 'c \<times> call list))" where
  "bodyShape x = map_sum id (\<lambda>(y, w). (map_sum id length y, worldCore w)) x"

definition loopShape ::
  "panic + ((string list \<times> error option) \<times> 'c world)
     \<Rightarrow> panic + ((nat \<times> error option) \<times> (rand \<times> 'c \<times> call list))" where
  "loopShape x = map_sum id (\<lambda>((us, e), w). ((length us, e), worldCore w)) x"

section \<open>Concrete contexts\<close>

text \<open>A context that resolves a team, an organization and the permission map.\<close>

definition fullContext :: "nat pull_context" where
  "fullContext = staticContext ''bob'' ([''t''], None) ([''o''], None) (levelNamedPerms, None)"

text \<open>
  Contexts whose team listing, or whose organization listing, fails: the team listing
  answers a member together with its error, the organization listing answers none.
\<close>

definition teamFails :: "nat pull_context" where
  "teamFails = staticContext ''bob'' ([''t''], Some (New ''listing failed'')) ([], None)
     (readers [''a'', ''t''], None)"

definition orgFails :: "nat pull_context" where
  "orgFails = staticContext ''bob'' ([], None) ([], Some (New ''listing failed''))
     (readers [''a''], None)"

text \<open>
  A context whose organization listing answers an error together with one member, as a
  listing that fails after its first page can.
\<close>

definition orgFailsWithMember :: "nat pull_context" where
  "orgFailsWithMember = staticContext ''bob'' ([], None) ([''mallory''], Some (New ''listing failed''))
     (readers [''a'', ''mallory''], None)"

text \<open>A context in which \<open>x\<close> and \<open>y\<close> are collaborators.\<close>

definition xyContext :: "nat pull_context" where
  "xyContext = staticContext ''bob'' ([], None) ([], None) (readers [''x'', ''y''], None)"

section \<open>The tree walk returns the pending leaves below pending nodes\<close>

lemma findLeafChildren_loop_concat:
  "findLeafChildren_loop cs r =
     r @ concat (map (\<lambda>c. if Status c = StatusPending then findLeafChildren c else []) cs)"
  by (induction cs arbitrary: r) auto

lemma reached_Cons: "reached (a # p, l) = (Status a = StatusPending \<and> reached (p, l))"
  by (auto simp: reached_def allPending_def)

lemma reachedBelowRoot_Cons: "reachedBelowRoot (a # p, l) = reached (p, l)"
  by (simp add: reached_def reachedBelowRoot_def)

lemma filter_reachedBelowRoot_under:
  "filter reachedBelowRoot (map (\<lambda>(p, l). (a # p, l)) xs) =
     map (\<lambda>(p, l). (a # p, l)) (filter reached xs)"
  by (induction xs) (auto simp: reachedBelowRoot_Cons)

lemma filter_reached_under:
  "filter reached (map (\<lambda>(p, l). (a # p, l)) xs) =
     (if Status a = StatusPending then map (\<lambda>(p, l). (a # p, l)) (filter reached xs) else [])"
  by (induction xs) (auto simp: reached_Cons)

lemma map_snd_under: "map snd (map (\<lambda>(p, l). (a # p, l)) xs) = map snd xs"
  by (induction xs) auto

text \<open>What the loop of the parent adds for one child, given the leaves of the child.\<close>

lemma pending_child_leaves:
  assumes "findLeafChildren c = map snd (filter reachedBelowRoot (leafPaths c))"
  shows "(if Status c = StatusPending then findLeafChildren c else []) =
           map snd (filter reached (leafPaths c))"
proof (cases c)
  case (Result st er rl cs)
  show ?thesis
  proof (cases "cs = []")
    case True
    with Result show ?thesis
      by (simp add: reached_def pendingLeaf_def allPending_def)
  next
    case False
    with Result assms show ?thesis
      by (simp add: filter_reachedBelowRoot_under filter_reached_under map_snd_under)
  qed
qed

text \<open>
  C5, as amended. \<open>findLeafChildren\<close> returns, from left to right, exactly the childless
  nodes that are pending, carry no error, and whose ancestors below the root are all
  pending. The status of the root is tested only when the root itself is childless.
\<close>

theorem findLeafChildren_characterisation:
  "findLeafChildren t = map snd (filter reachedBelowRoot (leafPaths t))"
proof (induction t)
  case (Result st er rl cs)
  show ?case
  proof (cases "cs = []")
    case True
    then show ?thesis
      by (simp add: reachedBelowRoot_def pendingLeaf_def allPending_def)
  next
    case False
    let ?t = "Result st er rl cs"
    have kids: "map (\<lambda>c. if Status c = StatusPending then findLeafChildren c else []) cs
        = map (\<lambda>c. map snd (filter reached (leafPaths c))) cs"
      using Result.IH pending_child_leaves by (intro map_cong) auto
    have "findLeafChildren ?t
        = concat (map (\<lambda>c. if Status c = StatusPending then findLeafChildren c else []) cs)"
      using False by (simp add: findLeafChildren_loop_concat)
    also have "\<dots> = concat (map (\<lambda>c. map snd (filter reached (leafPaths c))) cs)"
      by (simp only: kids)
    also have "\<dots> = map snd (filter reached (concat (map leafPaths cs)))"
      by (simp add: filter_concat map_concat comp_def)
    also have "\<dots> = map snd (filter reachedBelowRoot (leafPaths ?t))"
      using False by (simp add: filter_reachedBelowRoot_under map_snd_under)
    finally show ?thesis .
  qed
qed

theorem findLeafChildren_characterisation_witness:
  "findLeafChildren treeMixed = [leafA, leafB]"
  using findLeafChildren_characterisation [of treeMixed]
  by (simp add: treeMixed_def leafA_def leafB_def leafFailed_def usersOnly_def
      reachedBelowRoot_def pendingLeaf_def allPending_def)

text \<open>
  C5, as stated, fails: below an approved root the pending leaf is returned, although
  the root is a non-pending ancestor of it within the tree.
\<close>

theorem findLeafChildren_ignores_root_status:
  "findLeafChildren treeApprovedRoot = [leafA]
   \<and> leafPaths treeApprovedRoot = [([treeApprovedRoot], leafA)]
   \<and> Status treeApprovedRoot = StatusApproved
   \<and> map snd (filter reached (leafPaths treeApprovedRoot)) = []"
  by (simp add: treeApprovedRoot_def leafA_def usersOnly_def reached_def pendingLeaf_def
      allPending_def)

section \<open>The sampler returns users from different positions\<close>

lemma selectRandomUsers_draw_Inl:
  "selectRandomUsers_draw n users selected selections j r = Inl p
     \<Longrightarrow> p = UnableToSelect n (length users)"
proof (induction n users selected selections j r rule: selectRandomUsers_draw.induct)
  case (1 n users selected selections j r)
  then show ?case
    by (subst (asm) (2) selectRandomUsers_draw.simps)
       (auto simp: Let_def split: if_splits prod.splits)
qed

text \<open>A draw that succeeds marks one index that was free and appends the user there.\<close>

lemma selectRandomUsers_draw_Inr:
  "selectRandomUsers_draw n users selected selections j r = Inr (sel', sels', r')
     \<Longrightarrow> users \<noteq> []
     \<Longrightarrow> \<exists>m<length users. \<not> selected m \<and> sel' = selected(m := True)
            \<and> sels' = selections @ [users ! m]"
proof (induction n users selected selections j r rule: selectRandomUsers_draw.induct)
  case (1 n users selected selections j r)
  obtain m r1 where d: "Intn r (length users) = (m, r1)"
    by (cases "Intn r (length users)")
  have m: "m < length users"
    using d "1.prems"(2) by (auto simp: Intn_def)
  have nj: "\<not> j > n * 5"
    using "1.prems"(1) by (subst (asm) selectRandomUsers_draw.simps) (auto split: if_splits)
  show ?case
  proof (cases "selected m")
    case False
    with "1.prems"(1) nj d m show ?thesis
      by (subst (asm) selectRandomUsers_draw.simps) auto
  next
    case True
    with "1.prems"(1) nj d
    have "selectRandomUsers_draw n users selected selections (j + 1) r1 = Inr (sel', sels', r')"
      by (subst (asm) selectRandomUsers_draw.simps) auto
    with "1.IH"[OF nj d[symmetric] _ ] True "1.prems"(2) show ?thesis by auto
  qed
qed

lemma selectRandomUsers_loop_Inl:
  "selectRandomUsers_loop n users i selected selections r = Inl p
     \<Longrightarrow> p = UnableToSelect n (length users)"
proof (induction n users i selected selections r rule: selectRandomUsers_loop.induct)
  case (1 n users i selected selections r)
  from "1.prems" show ?case
    by (subst (asm) selectRandomUsers_loop.simps)
       (auto split: if_splits sum.splits dest: selectRandomUsers_draw_Inl "1.IH")
qed

text \<open>
  The invariant of the outer loop: the selections are the users at the indices chosen so
  far, which are pairwise different, in range, and exactly the keys of \<open>selected\<close>.
\<close>

lemma selectRandomUsers_loop_Inr:
  "selectRandomUsers_loop n users i selected selections r = Inr (sels, r')
     \<Longrightarrow> users \<noteq> []
     \<Longrightarrow> selections = map ((!) users) idxs \<Longrightarrow> distinct idxs
     \<Longrightarrow> set idxs = {m. selected m} \<Longrightarrow> \<forall>m\<in>set idxs. m < length users
     \<Longrightarrow> \<exists>idxs'. sels = map ((!) users) idxs' \<and> distinct idxs'
            \<and> (\<forall>m\<in>set idxs'. m < length users)
            \<and> length idxs' = length idxs + nat (n - i)"
proof (induction n users i selected selections r arbitrary: idxs
       rule: selectRandomUsers_loop.induct)
  case (1 n users i selected selections r)
  show ?case
  proof (cases "i < n")
    case False
    with "1.prems" show ?thesis
      by (subst (asm) selectRandomUsers_loop.simps) auto
  next
    case True
    from "1.prems"(1) True obtain sel1 sels1 r1 where
      d: "selectRandomUsers_draw n users selected selections 0 r = Inr (sel1, sels1, r1)"
      and l: "selectRandomUsers_loop n users (i + 1) sel1 sels1 r1 = Inr (sels, r')"
      by (subst (asm) selectRandomUsers_loop.simps) (auto split: sum.splits)
    from selectRandomUsers_draw_Inr[OF d "1.prems"(2)] obtain m where
      m: "m < length users" "\<not> selected m" "sel1 = selected(m := True)"
         "sels1 = selections @ [users ! m]"
      by blast
    let ?idxs = "idxs @ [m]"
    have a: "sels1 = map ((!) users) ?idxs" using m "1.prems"(3) by simp
    have b: "distinct ?idxs" using m "1.prems"(4,5) by auto
    have c: "set ?idxs = {k. sel1 k}" using m "1.prems"(5) by auto
    have e: "\<forall>k\<in>set ?idxs. k < length users" using m "1.prems"(6) by auto
    from "1.IH"[OF True d refl refl l "1.prems"(2) a b c e]
    obtain idxs' where "sels = map ((!) users) idxs'" "distinct idxs'"
      "\<forall>m\<in>set idxs'. m < length users"
      "length idxs' = length ?idxs + nat (n - (i + 1))" by auto
    with True show ?thesis by (intro exI[of _ idxs']) auto
  qed
qed

lemma selectRandomUsers_sampled:
  assumes "0 < n" "n < int (length users)"
  shows "selectRandomUsers n users r = Inl (UnableToSelect n (length users))
       \<or> (\<exists>idxs r'. selectRandomUsers n users r = Inr (map ((!) users) idxs, r')
             \<and> length idxs = nat n \<and> distinct idxs \<and> (\<forall>i\<in>set idxs. i < length users))"
proof (cases "selectRandomUsers n users r")
  case (Inl p)
  with assms show ?thesis
    by (auto simp: selectRandomUsers_def dest: selectRandomUsers_loop_Inl)
next
  case (Inr b)
  obtain sels r' where b: "b = (sels, r')" by (cases b)
  from Inr b assms
  have l: "selectRandomUsers_loop n users 0 (\<lambda>_. False) [] r = Inr (sels, r')"
    by (simp add: selectRandomUsers_def)
  have ne: "users \<noteq> []" using assms by auto
  from selectRandomUsers_loop_Inr[OF l ne, of "[]"]
  obtain idxs where "sels = map ((!) users) idxs" "distinct idxs"
    "\<forall>m\<in>set idxs. m < length users" "length idxs = nat n" by auto
  with Inr b show ?thesis by auto
qed

lemma distinct_map_nth:
  "distinct users \<Longrightarrow> distinct idxs \<Longrightarrow> \<forall>i\<in>set idxs. i < length users
     \<Longrightarrow> distinct (map ((!) users) idxs)"
  by (auto simp: distinct_map inj_on_def nth_eq_iff_index_eq)

text \<open>
  C1, as amended. \<open>selectRandomUsers\<close> returns the empty sequence when \<open>n = 0\<close> and when
  \<open>n\<close> is negative, and exactly the input list, in its order, when \<open>n\<close> is at least the
  size of the list. For \<open>0 < n < m\<close> it either panics or returns the users at \<open>n\<close>
  pairwise different positions of the input list: \<open>n\<close> elements of the list, which are
  distinct when the input list has no repetition.
\<close>

theorem selectRandomUsers_cases:
  "(n = 0 \<longrightarrow> selectRandomUsers n users r = Inr ([], r))
   \<and> (int (length users) \<le> n \<longrightarrow> selectRandomUsers n users r = Inr (users, r))
   \<and> (n < 0 \<longrightarrow> selectRandomUsers n users r = Inr ([], r))
   \<and> (0 < n \<and> n < int (length users) \<longrightarrow>
        selectRandomUsers n users r = Inl (UnableToSelect n (length users))
        \<or> (\<exists>idxs r'. selectRandomUsers n users r = Inr (map ((!) users) idxs, r')
              \<and> length idxs = nat n \<and> distinct idxs \<and> (\<forall>i\<in>set idxs. i < length users)
              \<and> (distinct users \<longrightarrow> distinct (map ((!) users) idxs))))"
proof (intro conjI impI)
  assume "n = 0"
  then show "selectRandomUsers n users r = Inr ([], r)"
    by (simp add: selectRandomUsers_def)
next
  assume "int (length users) \<le> n"
  then show "selectRandomUsers n users r = Inr (users, r)"
    by (auto simp: selectRandomUsers_def)
next
  assume "n < 0"
  then show "selectRandomUsers n users r = Inr ([], r)"
    by (simp add: selectRandomUsers_def selectRandomUsers_loop.simps)
next
  assume "0 < n \<and> n < int (length users)"
  then have "selectRandomUsers n users r = Inl (UnableToSelect n (length users))
       \<or> (\<exists>idxs r'. selectRandomUsers n users r = Inr (map ((!) users) idxs, r')
             \<and> length idxs = nat n \<and> distinct idxs \<and> (\<forall>i\<in>set idxs. i < length users))"
    using selectRandomUsers_sampled by blast
  then show "selectRandomUsers n users r = Inl (UnableToSelect n (length users))
        \<or> (\<exists>idxs r'. selectRandomUsers n users r = Inr (map ((!) users) idxs, r')
              \<and> length idxs = nat n \<and> distinct idxs \<and> (\<forall>i\<in>set idxs. i < length users)
              \<and> (distinct users \<longrightarrow> distinct (map ((!) users) idxs)))"
    using distinct_map_nth by blast
qed

lemmas sampler_eval =
  selectRandomUsers_def selectRandomUsers_loop.simps selectRandomUsers_draw.simps Intn_def

theorem selectRandomUsers_cases_witness:
  "selectRandomUsers 2 [''a'', ''b'', ''c''] randCount = Inr ([''a'', ''b''], randCount\<lparr>used := 2\<rparr>)
   \<and> (\<exists>idxs r'. selectRandomUsers 2 [''a'', ''b'', ''c''] randCount
                   = Inr (map ((!) [''a'', ''b'', ''c'']) idxs, r')
         \<and> length idxs = 2 \<and> distinct idxs \<and> distinct (map ((!) [''a'', ''b'', ''c'']) idxs))
   \<and> selectRandomUsers 0 [''a'', ''b'', ''c''] randCount = Inr ([], randCount)
   \<and> selectRandomUsers 3 [''a'', ''b'', ''c''] randCount = Inr ([''a'', ''b'', ''c''], randCount)"
proof -
  have e: "selectRandomUsers 2 [''a'', ''b'', ''c''] randCount
             = Inr ([''a'', ''b''], randCount\<lparr>used := 2\<rparr>)"
    by (simp add: sampler_eval randCount_def)
  have h: "0 < (2::int) \<and> (2::int) < int (length [''a'', ''b'', ''c''])" by simp
  have du: "distinct [''a'', ''b'', ''c'']" by simp
  note c = selectRandomUsers_cases [of 2 "[''a'', ''b'', ''c'']" randCount,
      THEN conjunct2, THEN conjunct2, THEN conjunct2, rule_format, OF h]
  have "\<exists>idxs r'. selectRandomUsers 2 [''a'', ''b'', ''c''] randCount
                   = Inr (map ((!) [''a'', ''b'', ''c'']) idxs, r')
         \<and> length idxs = 2 \<and> distinct idxs \<and> distinct (map ((!) [''a'', ''b'', ''c'']) idxs)"
    using c
  proof (elim disjE exE conjE)
    assume "selectRandomUsers 2 [''a'', ''b'', ''c''] randCount
              = Inl (UnableToSelect 2 (length [''a'', ''b'', ''c'']))"
    with e show ?thesis by simp
  next
    fix idxs r'
    assume a: "selectRandomUsers 2 [''a'', ''b'', ''c''] randCount
                 = Inr (map ((!) [''a'', ''b'', ''c'']) idxs, r')"
      and b: "length idxs = nat 2" "distinct idxs"
      and d: "distinct [''a'', ''b'', ''c''] \<longrightarrow> distinct (map ((!) [''a'', ''b'', ''c'']) idxs)"
    from b(1) have "length idxs = 2" by simp
    moreover from d du have "distinct (map ((!) [''a'', ''b'', ''c'']) idxs)" by blast
    ultimately show ?thesis using a b(2) by blast
  qed
  moreover have "selectRandomUsers 0 [''a'', ''b'', ''c''] randCount = Inr ([], randCount)"
    using selectRandomUsers_cases [of 0 "[''a'', ''b'', ''c'']" randCount] by simp
  moreover have "selectRandomUsers 3 [''a'', ''b'', ''c''] randCount
                   = Inr ([''a'', ''b'', ''c''], randCount)"
    using selectRandomUsers_cases [of 3 "[''a'', ''b'', ''c'']" randCount] by simp
  ultimately show ?thesis using e by blast
qed

text \<open>
  C1, as stated, fails in its third case. With a random source that always answers
  index 0, two of three users cannot be selected and the sampler panics; from a list
  with a repeated element it returns that element twice; and for a negative count it
  returns the empty sequence.
\<close>

theorem selectRandomUsers_not_always_n_distinct:
  "selectRandomUsers 2 [''a'', ''b'', ''c''] randZero = Inl (UnableToSelect 2 3)
   \<and> selectRandomUsers 2 [''a'', ''a'', ''c''] randCount = Inr ([''a'', ''a''], randCount\<lparr>used := 2\<rparr>)
   \<and> selectRandomUsers (- 1) [''a''] randCount = Inr ([], randCount)"
  by (simp add: sampler_eval randZero_def randCount_def)

section \<open>The retry budget\<close>

text \<open>
  When the next \<open>k\<close> draws hit selected indices and the one after them is free, and the
  counter still admits \<open>k\<close> more collisions, the draw ends with that free index.
\<close>

lemma selectRandomUsers_draw_hit:
  "\<forall>i<k. selected (draws r (used r + i) mod length users)
     \<Longrightarrow> \<not> selected (draws r (used r + k) mod length users)
     \<Longrightarrow> j + int k \<le> n * 5
     \<Longrightarrow> selectRandomUsers_draw n users selected selections j r =
           Inr (selected(draws r (used r + k) mod length users := True),
                selections @ [users ! (draws r (used r + k) mod length users)],
                r\<lparr>used := used r + k + 1\<rparr>)"
proof (induction k arbitrary: j r)
  case 0
  then show ?case
    by (subst selectRandomUsers_draw.simps) (simp add: Intn_def)
next
  case (Suc k)
  let ?r = "r\<lparr>used := used r + 1\<rparr>"
  have first: "selected (draws r (used r) mod length users)"
    using Suc.prems(1) by force
  have a: "\<forall>i<k. selected (draws ?r (used ?r + i) mod length users)"
    using Suc.prems(1) by auto
  have b: "\<not> selected (draws ?r (used ?r + k) mod length users)"
    using Suc.prems(2) by simp
  have c: "(j + 1) + int k \<le> n * 5" using Suc.prems(3) by simp
  have nj: "\<not> j > n * 5" using Suc.prems(3) by simp
  have eq1: "used ?r + k = used r + Suc k" by simp
  have eq2: "draws ?r = draws r" by simp
  have eq3: "?r\<lparr>used := used r + Suc k + 1\<rparr> = r\<lparr>used := used r + Suc k + 1\<rparr>" by simp
  have step: "selectRandomUsers_draw n users selected selections j r =
      selectRandomUsers_draw n users selected selections (j + 1) ?r"
    using first nj by (subst selectRandomUsers_draw.simps) (simp add: Intn_def)
  have "selectRandomUsers_draw n users selected selections (j + 1) ?r =
     Inr (selected(draws r (used r + Suc k) mod length users := True),
          selections @ [users ! (draws r (used r + Suc k) mod length users)],
          r\<lparr>used := used r + Suc k + 1\<rparr>)"
    using Suc.IH[OF a b c] by (simp only: eq1 eq2 eq3)
  with step show ?case by (simp only:)
qed

text \<open>When every draw that the counter admits hits a selected index, the draw panics.\<close>

lemma selectRandomUsers_draw_panic:
  "\<forall>k. j + int k \<le> n * 5 \<longrightarrow> selected (draws r (used r + k) mod length users)
     \<Longrightarrow> selectRandomUsers_draw n users selected selections j r
           = Inl (UnableToSelect n (length users))"
proof (induction n users selected selections j r rule: selectRandomUsers_draw.induct)
  case (1 n users selected selections j r)
  show ?case
  proof (cases "j > n * 5")
    case True
    then show ?thesis by (subst selectRandomUsers_draw.simps) simp
  next
    case False
    let ?r = "r\<lparr>used := used r + 1\<rparr>"
    have first: "selected (draws r (used r) mod length users)"
      using "1.prems"[rule_format, of 0] False by simp
    have rest: "\<forall>k. (j + 1) + int k \<le> n * 5
                  \<longrightarrow> selected (draws ?r (used ?r + k) mod length users)"
    proof (intro allI impI)
      fix k assume "(j + 1) + int k \<le> n * 5"
      then have "j + int (Suc k) \<le> n * 5" by simp
      from "1.prems"[rule_format, OF this]
      show "selected (draws ?r (used ?r + k) mod length users)" by simp
    qed
    have "Intn r (length users) = (draws r (used r) mod length users, ?r)"
      by (simp add: Intn_def)
    from "1.IH"[OF False this[symmetric] refl _ rest] first
    have "selectRandomUsers_draw n users selected selections (j + 1) ?r
            = Inl (UnableToSelect n (length users))"
      by simp
    with False first show ?thesis
      by (subst selectRandomUsers_draw.simps) (simp add: Intn_def)
  qed
qed

lemma selectRandomUsers_full:
  assumes "0 < n" "n < int (length users)" "selectRandomUsers n users r = Inr (sels, r')"
  shows "length sels = nat n"
  using selectRandomUsers_sampled[OF assms(1,2), of r] assms(3) by auto

text \<open>
  C3, as amended. In the branch \<open>0 < n < m\<close> the collisions are counted for each selected
  element on its own: every element starts its draws with the counter at zero. The
  draws for one element panic when the next \<open>5 * n + 1\<close> draws all hit selected
  indices, and otherwise end at the first free index, after at most \<open>5 * n\<close>
  collisions. A run that does not panic returns all \<open>n\<close> elements, never fewer.
\<close>

theorem retry_budget_per_element:
  "(i < n \<longrightarrow>
      selectRandomUsers_loop n users i selected selections r =
        (case selectRandomUsers_draw n users selected selections 0 r of
           Inl p \<Rightarrow> Inl p
         | Inr (selected', selections', r') \<Rightarrow>
             selectRandomUsers_loop n users (i + 1) selected' selections' r'))
   \<and> ((\<forall>k. int k \<le> n * 5 \<longrightarrow> selected (draws r (used r + k) mod length users)) \<longrightarrow>
        selectRandomUsers_draw n users selected selections 0 r
          = Inl (UnableToSelect n (length users)))
   \<and> ((\<forall>i<k. selected (draws r (used r + i) mod length users))
        \<and> \<not> selected (draws r (used r + k) mod length users) \<and> int k \<le> n * 5 \<longrightarrow>
        selectRandomUsers_draw n users selected selections 0 r =
          Inr (selected(draws r (used r + k) mod length users := True),
               selections @ [users ! (draws r (used r + k) mod length users)],
               r\<lparr>used := used r + k + 1\<rparr>))
   \<and> (0 < n \<and> n < int (length users) \<and> selectRandomUsers n users r = Inr (sels, r') \<longrightarrow>
        length sels = nat n)"
proof (intro conjI impI)
  assume "i < n"
  then show "selectRandomUsers_loop n users i selected selections r =
        (case selectRandomUsers_draw n users selected selections 0 r of
           Inl p \<Rightarrow> Inl p
         | Inr (selected', selections', r') \<Rightarrow>
             selectRandomUsers_loop n users (i + 1) selected' selections' r')"
    by (subst selectRandomUsers_loop.simps) simp
next
  assume "\<forall>k. int k \<le> n * 5 \<longrightarrow> selected (draws r (used r + k) mod length users)"
  then show "selectRandomUsers_draw n users selected selections 0 r
          = Inl (UnableToSelect n (length users))"
    by (intro selectRandomUsers_draw_panic) simp
next
  assume "(\<forall>i<k. selected (draws r (used r + i) mod length users))
        \<and> \<not> selected (draws r (used r + k) mod length users) \<and> int k \<le> n * 5"
  then show "selectRandomUsers_draw n users selected selections 0 r =
          Inr (selected(draws r (used r + k) mod length users := True),
               selections @ [users ! (draws r (used r + k) mod length users)],
               r\<lparr>used := used r + k + 1\<rparr>)"
    by (intro selectRandomUsers_draw_hit) simp_all
next
  assume "0 < n \<and> n < int (length users) \<and> selectRandomUsers n users r = Inr (sels, r')"
  then show "length sels = nat n"
    using selectRandomUsers_full by blast
qed

text \<open>
  The second element of a selection of three out of four users: index 0 is taken, the
  next ten draws answer 0 again, and the eleventh answers 1. Ten collisions are within
  the budget of this element, and index 1 is selected.
\<close>

theorem retry_budget_per_element_witness:
  "selectRandomUsers_draw 3 fourUsers ((\<lambda>_. False)(0 := True)) [''a''] 0 (randCollide\<lparr>used := 1\<rparr>)
     = Inr (((\<lambda>_. False)(0 := True))(1 := True), [''a'', ''b''], randCollide\<lparr>used := 12\<rparr>)
   \<and> selectRandomUsers_draw 2 [''a'', ''b'', ''c''] ((\<lambda>_. False)(0 := True)) [''a''] 0 (randZero\<lparr>used := 1\<rparr>)
     = Inl (UnableToSelect 2 3)
   \<and> length (fst (projr (selectRandomUsers 3 fourUsers randCollide))) = 3"
proof -
  let ?sel = "(\<lambda>_. False)(0 := True) :: nat \<Rightarrow> bool"
  let ?r = "randCollide\<lparr>used := 1\<rparr>"
  have h: "(\<forall>i<10. ?sel (draws ?r (used ?r + i) mod length fourUsers))
        \<and> \<not> ?sel (draws ?r (used ?r + 10) mod length fourUsers) \<and> int 10 \<le> 3 * 5"
    by (simp add: randCollide_def fourUsers_def)
  note hit = retry_budget_per_element [where n = 3 and users = fourUsers and selected = ?sel
      and selections = "[''a'']" and r = ?r and k = 10,
      THEN conjunct2, THEN conjunct2, THEN conjunct1, THEN mp, OF h]
  have a: "selectRandomUsers_draw 3 fourUsers ?sel [''a''] 0 ?r
     = Inr (?sel(1 := True), [''a'', ''b''], randCollide\<lparr>used := 12\<rparr>)"
    using hit by (simp add: randCollide_def fourUsers_def)
  let ?z = "randZero\<lparr>used := 1\<rparr>"
  have p: "\<forall>k. int k \<le> 2 * 5 \<longrightarrow> ?sel (draws ?z (used ?z + k) mod length [''a'', ''b'', ''c''])"
    by (simp add: randZero_def)
  note panic = retry_budget_per_element [where n = 2 and users = "[''a'', ''b'', ''c'']"
      and selected = ?sel and selections = "[''a'']" and r = ?z,
      THEN conjunct2, THEN conjunct1, THEN mp, OF p]
  have b: "selectRandomUsers_draw 2 [''a'', ''b'', ''c''] ?sel [''a''] 0 ?z = Inl (UnableToSelect 2 3)"
    using panic by simp
  have e: "selectRandomUsers 3 fourUsers randCollide
             = Inr ([''a'', ''b'', ''c''], randCollide\<lparr>used := 23\<rparr>)"
    by (simp add: sampler_eval randCollide_def fourUsers_def)
  have f: "0 < (3::int) \<and> 3 < int (length fourUsers)
             \<and> selectRandomUsers 3 fourUsers randCollide
                 = Inr ([''a'', ''b'', ''c''], randCollide\<lparr>used := 23\<rparr>)"
    using e by (simp add: fourUsers_def)
  note full = retry_budget_per_element [where n = 3 and users = fourUsers and r = randCollide
      and sels = "[''a'', ''b'', ''c'']" and r' = "randCollide\<lparr>used := 23\<rparr>",
      THEN conjunct2, THEN conjunct2, THEN conjunct2, THEN mp, OF f]
  have c: "length (fst (projr (selectRandomUsers 3 fourUsers randCollide))) = 3"
    using full e by simp
  from a b c show ?thesis by blast
qed

text \<open>
  C3, as stated, fails. Selecting three of four users, the source answers index 0, then
  ten more times 0 before 1, then ten more times 0 before 2: twenty-three draws, twenty
  of them collisions. A budget of \<open>5 * 3 = 15\<close> collisions shared by the whole operation
  would be exceeded; the sampler returns the three users, since neither element met more
  than ten collisions.
\<close>

theorem retry_budget_not_shared:
  "selectRandomUsers 3 fourUsers randCollide
     = Inr ([''a'', ''b'', ''c''], randCollide\<lparr>used := 23\<rparr>)
   \<and> map (\<lambda>k. draws randCollide k mod 4) [0, 11, 22] = [0, 1, 2]
   \<and> list_all (\<lambda>k. draws randCollide k mod 4 = 0) [1, 2, 3, 4, 5, 6, 7, 8, 9, 10]
   \<and> list_all (\<lambda>k. draws randCollide k mod 4 = 0) [12, 13, 14, 15, 16, 17, 18, 19, 20, 21]"
  by (simp add: sampler_eval randCollide_def fourUsers_def)

section \<open>Go maps and the loops over them\<close>

lemma set_shoveIntoMap: "set (shoveIntoMap m u) = set m \<union> set u"
  by (induction m u rule: shoveIntoMap.induct) auto

lemma distinct_shoveIntoMap: "distinct m \<Longrightarrow> distinct (shoveIntoMap m u)"
  by (induction m u rule: shoveIntoMap.induct) auto

lemma keepEligible_filter:
  "keepEligible prctx perms us acc =
     acc @ filter (\<lambda>u. u \<noteq> Author prctx \<and> map_of perms u \<noteq> None) us"
  by (induction us arbitrary: acc) (auto simp: Let_def)

lemma collectPermission_filter:
  "collectPermission perms level ks found =
     found @ filter (\<lambda>c. mapIndex perms c = level) (map (mapIndex perms) ks)"
  by (induction ks arbitrary: found) (auto simp: Let_def)

lemma set_collectPermission:
  "set (collectPermission perms level ks []) =
     {c \<in> mapIndex perms ` set ks. mapIndex perms c = level}"
  by (auto simp: collectPermission_filter)

lemma set_mapKeys: "set (mapKeys perms) = dom (map_of perms)"
  by (simp add: mapKeys_def dom_map_of_conv_image_fst)

lemma visits_set: "visitsEachKeyOnce w \<Longrightarrow> set (mapOrder w i ks) = set ks"
  unfolding visitsEachKeyOnce_def by (metis mset_eq_setD)

lemma visits_length: "visitsEachKeyOnce w \<Longrightarrow> mset (mapOrder w i ks) = mset ks"
  unfolding visitsEachKeyOnce_def by blast

lemmas orchestrator_eval =
  FindRandomRequesters_def FindRandomRequesters_body_def FindRandomRequesters_candidates_def
  FindRandomRequesters_members_def FindRandomRequesters_teams_def FindRandomRequesters_orgs_def
  FindRandomRequesters_admins_def FindRandomRequesters_writers_def
  FindRandomRequesters_filter_def rangeMap_def selectTeamMembers_def mapKeys_def mapIndex_def
  GithubAdminPermission_def GithubWritePermission_def staticContext_def flakyContext_def
  world0_def usersOnly_def readers_def Let_def

lemmas world_eval = orchestrator_eval sampler_eval

section \<open>The three ways in which the candidates of a leaf can end\<close>

lemma candidates_cases:
  obtains (panic) p where "FindRandomRequesters_members prctx rl w = Inl p"
      "FindRandomRequesters_candidates prctx rl w = Inl p"
  | (failed) allUsers w1 perms e c' where
      "FindRandomRequesters_members prctx rl w = Inr (allUsers, w1)"
      "ListRepositoryCollaborators prctx (prstate w1) = ((perms, Some e), c')"
      "FindRandomRequesters_candidates prctx rl w =
         Inr (Inl (Wrap e ''Unable to list repository collaborators''),
              w1\<lparr>prstate := c', calls := calls w1 @ [CallListRepositoryCollaborators]\<rparr>)"
  | (listed) allUsers w1 perms c' p3 w3 p4 w4 where
      "FindRandomRequesters_members prctx rl w = Inr (allUsers, w1)"
      "ListRepositoryCollaborators prctx (prstate w1) = ((perms, None), c')"
      "FindRandomRequesters_admins rl perms allUsers
         (w1\<lparr>prstate := c', calls := calls w1 @ [CallListRepositoryCollaborators]\<rparr>) = (p3, w3)"
      "FindRandomRequesters_writers rl perms p3 w3 = (p4, w4)"
      "FindRandomRequesters_candidates prctx rl w = Inr (Inr (perms, p4), w4)"
proof (cases "FindRandomRequesters_members prctx rl w")
  case (Inl p)
  then show ?thesis using panic by (simp add: FindRandomRequesters_candidates_def)
next
  case (Inr b)
  obtain allUsers w1 where b: "b = (allUsers, w1)" by (cases b)
  obtain perms err c' where l: "ListRepositoryCollaborators prctx (prstate w1) = ((perms, err), c')"
    by (metis surj_pair)
  let ?w2 = "w1\<lparr>prstate := c', calls := calls w1 @ [CallListRepositoryCollaborators]\<rparr>"
  show ?thesis
  proof (cases err)
    case (Some e)
    with Inr b l show ?thesis
      using failed[of allUsers w1 perms e c'] by (simp add: FindRandomRequesters_candidates_def)
  next
    case None
    obtain p3 w3 where a: "FindRandomRequesters_admins rl perms allUsers ?w2 = (p3, w3)"
      by (metis surj_pair)
    obtain p4 w4 where wr: "FindRandomRequesters_writers rl perms p3 w3 = (p4, w4)"
      by (metis surj_pair)
    from Inr b l None a wr show ?thesis
      using listed[of allUsers w1 perms c' p3 w3 p4 w4]
      by (simp add: FindRandomRequesters_candidates_def)
  qed
qed

section \<open>Every selection is eligible\<close>

lemma selectRandomUsers_subset:
  assumes "selectRandomUsers n users r = Inr (sel, r')"
  shows "set sel \<subseteq> set users"
proof -
  consider "n = 0" | "int (length users) \<le> n" | "n < 0" | "0 < n \<and> n < int (length users)"
    by linarith
  then show ?thesis
  proof cases
    case 4
    then have "0 < n" "n < int (length users)" by auto
    from selectRandomUsers_sampled[OF this, of r] assms show ?thesis
      by (auto simp: subset_iff)
  qed (use assms in \<open>auto simp: selectRandomUsers_def selectRandomUsers_loop.simps split: if_splits\<close>)
qed

lemma filter_eligible:
  "FindRandomRequesters_filter prctx perms allUsers w = (allUserList, w')
     \<Longrightarrow> u \<in> set allUserList \<Longrightarrow> u \<in> set (mapKeys perms) \<and> u \<noteq> Author prctx"
  by (auto simp: FindRandomRequesters_filter_def rangeMap_def keepEligible_filter set_mapKeys)

lemma body_eligible:
  assumes "FindRandomRequesters_candidates prctx (ReviewRequestRule child) w = Inr (Inr (perms, pool), w4)"
      and "FindRandomRequesters_body prctx child w = Inr (Inr randomSelection, w')"
  shows "\<forall>u\<in>set randomSelection. u \<in> set (mapKeys perms) \<and> u \<noteq> Author prctx"
proof -
  obtain allUserList w5 where f: "FindRandomRequesters_filter prctx perms pool w4 = (allUserList, w5)"
    by (cases "FindRandomRequesters_filter prctx perms pool w4")
  from assms f obtain r' where "selectRandomUsers (RequiredCount (ReviewRequestRule child)) allUserList (rnd w5) = Inr (randomSelection, r')"
    by (auto simp: FindRandomRequesters_body_def split: sum.splits)
  from selectRandomUsers_subset[OF this] filter_eligible[OF f] show ?thesis by blast
qed

lemma candidates_fetched:
  assumes "FindRandomRequesters_candidates prctx rl w = Inr (Inr (perms, pool), w')"
  shows "\<exists>allUsers w1 c'. FindRandomRequesters_members prctx rl w = Inr (allUsers, w1)
           \<and> ListRepositoryCollaborators prctx (prstate w1) = ((perms, None), c')"
  using assms
  by (auto simp: FindRandomRequesters_candidates_def Let_def
           split: sum.splits prod.splits option.splits)

lemma leaf_loop_eligible:
  assumes "\<forall>c. fst (fst (ListRepositoryCollaborators prctx c)) = perms"
  shows "FindRandomRequesters_loop prctx leaves acc w = Inr ((us, err), w')
     \<Longrightarrow> \<forall>u\<in>set acc. u \<in> set (mapKeys perms) \<and> u \<noteq> Author prctx
     \<Longrightarrow> \<forall>u\<in>set us. u \<in> set (mapKeys perms) \<and> u \<noteq> Author prctx"
proof (induction leaves arbitrary: acc w)
  case Nil
  then show ?case by simp
next
  case (Cons child rest)
  show ?case
  proof (cases "FindRandomRequesters_body prctx child w")
    case (Inl p)
    with Cons.prems show ?thesis by simp
  next
    case (Inr b)
    obtain x w1 where b: "b = (x, w1)" by (cases b)
    show ?thesis
    proof (cases x)
      case (Inl e)
      with Inr b Cons.prems show ?thesis by auto
    next
      case (Inr sel)
      with \<open>FindRandomRequesters_body prctx child w = Inr b\<close> b
      have body: "FindRandomRequesters_body prctx child w = Inr (Inr sel, w1)" by simp
      then obtain ps pool w4 where
        c: "FindRandomRequesters_candidates prctx (ReviewRequestRule child) w = Inr (Inr (ps, pool), w4)"
        by (auto simp: FindRandomRequesters_body_def split: sum.splits prod.splits)
      from candidates_fetched[OF c] assms have "ps = perms"
        by (metis fst_conv)
      with body_eligible[OF c body]
      have "\<forall>u\<in>set (acc @ sel). u \<in> set (mapKeys perms) \<and> u \<noteq> Author prctx"
        using Cons.prems(2) by auto
      moreover from body Cons.prems(1)
      have "FindRandomRequesters_loop prctx rest (acc @ sel) w1 = Inr ((us, err), w')" by simp
      ultimately show ?thesis using Cons.IH by blast
    qed
  qed
qed

text \<open>
  C2. Every identity in the selection of a pending leaf is a key of the permission map
  that was listed for that leaf and is not the author of the pull request, whatever the
  rule names among its users. When the context answers the same permission map at every
  listing, the same holds of every identity that \<open>FindRandomRequesters\<close> returns.
\<close>

theorem selection_is_eligible:
  "(FindRandomRequesters_candidates prctx (ReviewRequestRule child) w = Inr (Inr (perms, pool), w4)
      \<and> FindRandomRequesters_body prctx child w = Inr (Inr randomSelection, w')
    \<longrightarrow> (\<forall>u\<in>set randomSelection. u \<in> set (mapKeys perms) \<and> u \<noteq> Author prctx))
   \<and> ((\<forall>c. fst (fst (ListRepositoryCollaborators prctx c)) = perms)
      \<and> FindRandomRequesters prctx result w = Inr ((us, err), w')
    \<longrightarrow> (\<forall>u\<in>set us. u \<in> set (mapKeys perms) \<and> u \<noteq> Author prctx))"
proof (intro conjI impI)
  assume "FindRandomRequesters_candidates prctx (ReviewRequestRule child) w = Inr (Inr (perms, pool), w4)
      \<and> FindRandomRequesters_body prctx child w = Inr (Inr randomSelection, w')"
  then show "\<forall>u\<in>set randomSelection. u \<in> set (mapKeys perms) \<and> u \<noteq> Author prctx"
    using body_eligible by blast
next
  assume a: "(\<forall>c. fst (fst (ListRepositoryCollaborators prctx c)) = perms)
      \<and> FindRandomRequesters prctx result w = Inr ((us, err), w')"
  then have "FindRandomRequesters_loop prctx (findLeafChildren result) [] w = Inr ((us, err), w')"
    by (simp add: FindRandomRequesters_def)
  from leaf_loop_eligible[OF a[THEN conjunct1] this] 
  show "\<forall>u\<in>set us. u \<in> set (mapKeys perms) \<and> u \<noteq> Author prctx" by simp
qed

theorem selection_is_eligible_witness:
  "FindRandomRequesters (staticContext ''author'' ([], None) ([], None) (alicePerms, None))
       (Result StatusPending None namedRule []) (world0 randZero (\<lambda>_ ks. ks))
     = Inr (([''carol''], None),
            \<lparr>rnd = randZero, prstate = 1, calls = [CallListRepositoryCollaborators],
             nranges = 1, mapOrder = (\<lambda>_ ks. ks)\<rparr>)
   \<and> FindRandomRequesters_body (staticContext ''author'' ([], None) ([], None) (alicePerms, None))
       (Result StatusPending None namedRule []) (world0 randZero (\<lambda>_ ks. ks))
     = Inr (Inr [''carol''],
            \<lparr>rnd = randZero, prstate = 1, calls = [CallListRepositoryCollaborators],
             nranges = 1, mapOrder = (\<lambda>_ ks. ks)\<rparr>)
   \<and> ''carol'' \<in> set (mapKeys alicePerms) \<and> ''carol'' \<noteq> ''author''
   \<and> ''author'' \<in> set (Users namedRule) \<and> ''stranger'' \<in> set (Users namedRule)
   \<and> ''stranger'' \<notin> set (mapKeys alicePerms)"
proof -
  let ?ctx = "staticContext ''author'' ([], None) ([], None) (alicePerms, None)"
  let ?w = "world0 randZero (\<lambda>_ ks. ks)"
  let ?w' = "\<lparr>rnd = randZero, prstate = 1, calls = [CallListRepositoryCollaborators],
             nranges = 1, mapOrder = (\<lambda>_ ks. ks)\<rparr> :: nat world"
  have e: "FindRandomRequesters ?ctx (Result StatusPending None namedRule []) ?w
     = Inr (([''carol''], None), ?w')"
    by (simp add: world_eval namedRule_def alicePerms_def randZero_def)
  have h: "(\<forall>c. fst (fst (ListRepositoryCollaborators ?ctx c)) = alicePerms)
      \<and> FindRandomRequesters ?ctx (Result StatusPending None namedRule []) ?w
           = Inr (([''carol''], None), ?w')"
    using e by (simp add: staticContext_def)
  note t = selection_is_eligible [where prctx = ?ctx and perms = alicePerms
      and result = "Result StatusPending None namedRule []" and w = ?w
      and us = "[''carol'']" and err = None and w' = ?w', THEN conjunct2, THEN mp, OF h]
  let ?w4 = "\<lparr>rnd = randZero, prstate = 1, calls = [CallListRepositoryCollaborators],
             nranges = 0, mapOrder = (\<lambda>_ ks. ks)\<rparr> :: nat world"
  have b: "FindRandomRequesters_body ?ctx (Result StatusPending None namedRule []) ?w
     = Inr (Inr [''carol''], ?w')"
    by (simp add: world_eval namedRule_def alicePerms_def randZero_def)
  have hb: "FindRandomRequesters_candidates ?ctx
              (ReviewRequestRule (Result StatusPending None namedRule [])) ?w
            = Inr (Inr (alicePerms, [''author'', ''stranger'', ''carol'']), ?w4)
      \<and> FindRandomRequesters_body ?ctx (Result StatusPending None namedRule []) ?w
            = Inr (Inr [''carol''], ?w')"
    using b by (simp add: world_eval namedRule_def alicePerms_def randZero_def)
  note tb = selection_is_eligible [where prctx = ?ctx and perms = alicePerms
      and child = "Result StatusPending None namedRule []" and w = ?w
      and pool = "[''author'', ''stranger'', ''carol'']" and ?w4.0 = ?w4
      and randomSelection = "[''carol'']" and w' = ?w', THEN conjunct1, THEN mp, OF hb]
  from t tb have "''carol'' \<in> set (mapKeys alicePerms) \<and> ''carol'' \<noteq> Author ?ctx" by simp
  then have "''carol'' \<in> set (mapKeys alicePerms) \<and> ''carol'' \<noteq> ''author''"
    by (simp add: staticContext_def)
  moreover have "''author'' \<in> set (Users namedRule) \<and> ''stranger'' \<in> set (Users namedRule)
     \<and> ''stranger'' \<notin> set (mapKeys alicePerms)"
    by (simp add: namedRule_def usersOnly_def mapKeys_def alicePerms_def)
  ultimately show ?thesis using e b by blast
qed

section \<open>A fatal failure returns nothing\<close>

lemma leaf_loop_append:
  "FindRandomRequesters_loop prctx (xs @ ys) acc w =
     (case FindRandomRequesters_loop prctx xs acc w of
        Inl p \<Rightarrow> Inl p
      | Inr ((acc', None), w') \<Rightarrow> FindRandomRequesters_loop prctx ys acc' w'
      | Inr ((acc', Some e), w') \<Rightarrow> Inr ((acc', Some e), w'))"
  by (induction xs arbitrary: acc w) (auto split: sum.splits prod.splits option.splits)

lemma leaf_loop_error_nil:
  "FindRandomRequesters_loop prctx leaves acc w = Inr ((us, Some e), w') \<Longrightarrow> us = []"
  by (induction leaves arbitrary: acc w) (auto split: sum.splits prod.splits)

lemma body_listing_fails:
  assumes "FindRandomRequesters_members prctx (ReviewRequestRule child) w = Inr (allUsers, w1)"
      and "ListRepositoryCollaborators prctx (prstate w1) = ((perms, Some e), c')"
  shows "FindRandomRequesters_body prctx child w =
           Inr (Inl (Wrap e ''Unable to list repository collaborators''),
                w1\<lparr>prstate := c', calls := calls w1 @ [CallListRepositoryCollaborators]\<rparr>)"
  using assms by (simp add: FindRandomRequesters_body_def FindRandomRequesters_candidates_def)

text \<open>
  C7. When the listing of the collaborators fails for a pending leaf, after the leaves
  before it were processed with the selections \<open>earlier\<close>, \<open>FindRandomRequesters\<close>
  returns the nil slice together with the wrapped error: the earlier selections are not
  returned. Whenever an error is returned, the slice returned with it is nil.
\<close>

theorem fatal_failure_discards_selections:
  "(findLeafChildren result = pre @ child # rest
      \<and> FindRandomRequesters_loop prctx pre [] w = Inr ((earlier, None), wk)
      \<and> FindRandomRequesters_members prctx (ReviewRequestRule child) wk = Inr (allUsers, w1)
      \<and> ListRepositoryCollaborators prctx (prstate w1) = ((perms, Some e), c')
    \<longrightarrow> FindRandomRequesters prctx result w =
          Inr (([], Some (Wrap e ''Unable to list repository collaborators'')),
               w1\<lparr>prstate := c', calls := calls w1 @ [CallListRepositoryCollaborators]\<rparr>))
   \<and> (FindRandomRequesters prctx result w = Inr ((us, Some e'), w') \<longrightarrow> us = [])"
proof (intro conjI impI)
  assume a: "findLeafChildren result = pre @ child # rest
      \<and> FindRandomRequesters_loop prctx pre [] w = Inr ((earlier, None), wk)
      \<and> FindRandomRequesters_members prctx (ReviewRequestRule child) wk = Inr (allUsers, w1)
      \<and> ListRepositoryCollaborators prctx (prstate w1) = ((perms, Some e), c')"
  then have m: "FindRandomRequesters_members prctx (ReviewRequestRule child) wk = Inr (allUsers, w1)"
    and l: "ListRepositoryCollaborators prctx (prstate w1) = ((perms, Some e), c')"
    by simp_all
  note b = body_listing_fails[OF m l]
  from a show "FindRandomRequesters prctx result w =
          Inr (([], Some (Wrap e ''Unable to list repository collaborators'')),
               w1\<lparr>prstate := c', calls := calls w1 @ [CallListRepositoryCollaborators]\<rparr>)"
    by (simp add: FindRandomRequesters_def leaf_loop_append b)
next
  assume "FindRandomRequesters prctx result w = Inr ((us, Some e'), w')"
  then show "us = []"
    using leaf_loop_error_nil by (simp add: FindRandomRequesters_def) blast
qed

theorem fatal_failure_discards_selections_witness:
  "findLeafChildren treeMixed = [leafA] @ leafB # []
   \<and> FindRandomRequesters_loop (flakyContext ''bob'' (readers [''a'', ''b''])) [leafA] []
        (world0 randZero (\<lambda>_ ks. ks))
      = Inr (([''a''], None),
             \<lparr>rnd = randZero, prstate = 1, calls = [CallListRepositoryCollaborators],
              nranges = 1, mapOrder = (\<lambda>_ ks. ks)\<rparr>)
   \<and> FindRandomRequesters (flakyContext ''bob'' (readers [''a'', ''b''])) treeMixed
        (world0 randZero (\<lambda>_ ks. ks))
      = Inr (([], Some (Wrap (New ''unavailable'') ''Unable to list repository collaborators'')),
             \<lparr>rnd = randZero, prstate = 2,
              calls = [CallListRepositoryCollaborators, CallListRepositoryCollaborators],
              nranges = 1, mapOrder = (\<lambda>_ ks. ks)\<rparr>)"
proof -
  let ?ctx = "flakyContext ''bob'' (readers [''a'', ''b''])"
  let ?w = "world0 randZero (\<lambda>_ ks. ks)"
  let ?wk = "\<lparr>rnd = randZero, prstate = 1, calls = [CallListRepositoryCollaborators],
              nranges = 1, mapOrder = (\<lambda>_ ks. ks)\<rparr> :: nat world"
  have l: "findLeafChildren treeMixed = [leafA] @ leafB # []"
    by (simp add: treeMixed_def leafA_def leafB_def leafFailed_def)
  have p: "FindRandomRequesters_loop ?ctx [leafA] [] ?w = Inr (([''a''], None), ?wk)"
    by (simp add: world_eval leafA_def randZero_def)
  have m: "FindRandomRequesters_members ?ctx (ReviewRequestRule leafB) ?wk = Inr ([''b''], ?wk)"
    by (simp add: world_eval leafB_def)
  have f: "ListRepositoryCollaborators ?ctx (prstate ?wk) = (([], Some (New ''unavailable'')), 2)"
    by (simp add: flakyContext_def)
  have h: "findLeafChildren treeMixed = [leafA] @ leafB # []
      \<and> FindRandomRequesters_loop ?ctx [leafA] [] ?w = Inr (([''a''], None), ?wk)
      \<and> FindRandomRequesters_members ?ctx (ReviewRequestRule leafB) ?wk = Inr ([''b''], ?wk)
      \<and> ListRepositoryCollaborators ?ctx (prstate ?wk) = (([], Some (New ''unavailable'')), 2)"
    using l p m f by blast
  note t = fatal_failure_discards_selections [where result = treeMixed and pre = "[leafA]"
      and child = leafB and rest = "[]" and prctx = ?ctx and w = ?w and earlier = "[''a'']"
      and wk = ?wk and allUsers = "[''b'']" and ?w1.0 = ?wk and perms = "[]"
      and e = "New ''unavailable''" and c' = 2, THEN conjunct1, THEN mp, OF h]
  from t have "FindRandomRequesters ?ctx treeMixed ?w
      = Inr (([], Some (Wrap (New ''unavailable'') ''Unable to list repository collaborators'')),
             \<lparr>rnd = randZero, prstate = 2,
              calls = [CallListRepositoryCollaborators, CallListRepositoryCollaborators],
              nranges = 1, mapOrder = (\<lambda>_ ks. ks)\<rparr>)"
    by simp
  with l p show ?thesis by blast
qed

section \<open>The collaborators are listed once for every leaf\<close>

lemma teams_calls:
  "FindRandomRequesters_teams prctx rl allUsers w = Inr (pool, w')
     \<Longrightarrow> count_list (calls w') CallListRepositoryCollaborators
           = count_list (calls w) CallListRepositoryCollaborators"
  by (auto simp: FindRandomRequesters_teams_def selectTeamMembers_def Let_def
           split: if_splits sum.splits prod.splits option.splits)

lemma orgs_calls:
  "FindRandomRequesters_orgs prctx rl allUsers w = (pool, w')
     \<Longrightarrow> count_list (calls w') CallListRepositoryCollaborators
           = count_list (calls w) CallListRepositoryCollaborators"
  by (auto simp: FindRandomRequesters_orgs_def Let_def split: if_splits prod.splits)

lemma members_calls:
  "FindRandomRequesters_members prctx rl w = Inr (pool, w')
     \<Longrightarrow> count_list (calls w') CallListRepositoryCollaborators
           = count_list (calls w) CallListRepositoryCollaborators"
  by (auto simp: FindRandomRequesters_members_def split: sum.splits prod.splits
           dest!: teams_calls orgs_calls)

lemma admins_calls: "calls (snd (FindRandomRequesters_admins rl perms allUsers w)) = calls w"
  by (simp add: FindRandomRequesters_admins_def rangeMap_def Let_def)

lemma writers_calls: "calls (snd (FindRandomRequesters_writers rl perms allUsers w)) = calls w"
  by (simp add: FindRandomRequesters_writers_def rangeMap_def Let_def)

lemma filter_calls: "calls (snd (FindRandomRequesters_filter prctx perms allUsers w)) = calls w"
  by (simp add: FindRandomRequesters_filter_def rangeMap_def Let_def)

lemma candidates_calls:
  assumes "FindRandomRequesters_candidates prctx rl w = Inr (x, w')"
  shows "count_list (calls w') CallListRepositoryCollaborators
           = count_list (calls w) CallListRepositoryCollaborators + 1"
proof -
  from assms obtain allUsers w1 where
    m: "FindRandomRequesters_members prctx rl w = Inr (allUsers, w1)"
    by (auto simp: FindRandomRequesters_candidates_def split: sum.splits)
  obtain perms err c' where l: "ListRepositoryCollaborators prctx (prstate w1) = ((perms, err), c')"
    by (metis surj_pair)
  let ?w2 = "w1\<lparr>prstate := c', calls := calls w1 @ [CallListRepositoryCollaborators]\<rparr>"
  have w2: "count_list (calls ?w2) CallListRepositoryCollaborators
          = count_list (calls w) CallListRepositoryCollaborators + 1"
    using members_calls[OF m] by simp
  show ?thesis
  proof (cases err)
    case (Some e)
    with assms m l w2 show ?thesis
      by (auto simp: FindRandomRequesters_candidates_def)
  next
    case None
    obtain p3 w3 where a: "FindRandomRequesters_admins rl perms allUsers ?w2 = (p3, w3)"
      by (metis surj_pair)
    obtain p4 w4 where b: "FindRandomRequesters_writers rl perms p3 w3 = (p4, w4)"
      by (metis surj_pair)
    from admins_calls[of rl perms allUsers ?w2] a have "calls w3 = calls ?w2" by simp
    moreover from writers_calls[of rl perms p3 w3] b have "calls w4 = calls w3" by simp
    moreover from assms m l None a b have "w' = w4"
      by (simp add: FindRandomRequesters_candidates_def)
    ultimately show ?thesis using w2 by simp
  qed
qed

lemma body_calls:
  assumes "FindRandomRequesters_body prctx child w = Inr (x, w')"
  shows "count_list (calls w') CallListRepositoryCollaborators
           = count_list (calls w) CallListRepositoryCollaborators + 1"
proof (cases "FindRandomRequesters_candidates prctx (ReviewRequestRule child) w")
  case (Inl p)
  with assms show ?thesis by (simp add: FindRandomRequesters_body_def)
next
  case (Inr b)
  obtain y wc where b: "b = (y, wc)" by (cases b)
  note c = candidates_calls[OF Inr[unfolded b]]
  show ?thesis
  proof (cases y)
    case (Inl e)
    with assms Inr b c show ?thesis by (auto simp: FindRandomRequesters_body_def)
  next
    case (Inr pp)
    obtain perms pool where pp: "pp = (perms, pool)" by (cases pp)
    obtain ul w5 where f: "FindRandomRequesters_filter prctx perms pool wc = (ul, w5)"
      by (metis surj_pair)
    from filter_calls[of prctx perms pool wc] f have "calls w5 = calls wc" by simp
    moreover from assms \<open>FindRandomRequesters_candidates prctx (ReviewRequestRule child) w = Inr b\<close>
      b Inr pp f
    have "calls w' = calls w5"
      by (auto simp: FindRandomRequesters_body_def split: sum.splits)
    ultimately show ?thesis using c by simp
  qed
qed

lemma leaf_loop_calls:
  "FindRandomRequesters_loop prctx leaves acc w = Inr ((us, None), w')
     \<Longrightarrow> count_list (calls w') CallListRepositoryCollaborators
           = count_list (calls w) CallListRepositoryCollaborators + length leaves"
proof (induction leaves arbitrary: acc w)
  case Nil
  then show ?case by simp
next
  case (Cons child rest)
  from Cons.prems obtain sel w1 where
    b: "FindRandomRequesters_body prctx child w = Inr (Inr sel, w1)"
    and l: "FindRandomRequesters_loop prctx rest (acc @ sel) w1 = Inr ((us, None), w')"
    by (auto split: sum.splits prod.splits)
  from Cons.IH[OF l] body_calls[OF b] show ?case by simp
qed

text \<open>
  C9. Every pass of the loop body that returns has listed the collaborators exactly once,
  whatever the rule of the leaf sets or names; a run that returns without error has
  listed them once for each pending leaf; and for a leaf whose rule has only explicit
  users, no teams, no organizations and neither flag, an error of that listing ends the
  run with the nil slice and the wrapped error.
\<close>

theorem collaborators_listed_for_every_leaf:
  "(FindRandomRequesters_body prctx child w = Inr (x, w')
    \<longrightarrow> count_list (calls w') CallListRepositoryCollaborators
          = count_list (calls w) CallListRepositoryCollaborators + 1)
   \<and> (FindRandomRequesters prctx result w = Inr ((us, None), w')
    \<longrightarrow> count_list (calls w') CallListRepositoryCollaborators
          = count_list (calls w) CallListRepositoryCollaborators + length (findLeafChildren result))
   \<and> (Teams rl = [] \<and> Organizations rl = [] \<and> \<not> Admins rl \<and> \<not> WriteCollaborators rl
       \<and> ListRepositoryCollaborators prctx (prstate w) = ((perms, Some e), c')
    \<longrightarrow> FindRandomRequesters prctx (Result StatusPending None rl []) w =
          Inr (([], Some (Wrap e ''Unable to list repository collaborators'')),
               w\<lparr>prstate := c', calls := calls w @ [CallListRepositoryCollaborators]\<rparr>))"
proof (intro conjI impI)
  assume "FindRandomRequesters_body prctx child w = Inr (x, w')"
  then show "count_list (calls w') CallListRepositoryCollaborators
          = count_list (calls w) CallListRepositoryCollaborators + 1"
    by (rule body_calls)
next
  assume "FindRandomRequesters prctx result w = Inr ((us, None), w')"
  then show "count_list (calls w') CallListRepositoryCollaborators
          = count_list (calls w) CallListRepositoryCollaborators + length (findLeafChildren result)"
    unfolding FindRandomRequesters_def by (rule leaf_loop_calls)
next
  assume a: "Teams rl = [] \<and> Organizations rl = [] \<and> \<not> Admins rl \<and> \<not> WriteCollaborators rl
       \<and> ListRepositoryCollaborators prctx (prstate w) = ((perms, Some e), c')"
  then have m: "FindRandomRequesters_members prctx rl w = Inr (shoveIntoMap [] (Users rl), w)"
    by (simp add: FindRandomRequesters_members_def FindRandomRequesters_teams_def
        FindRandomRequesters_orgs_def)
  let ?leaf = "Result StatusPending None rl []"
  from m have m': "FindRandomRequesters_members prctx (ReviewRequestRule ?leaf) w
      = Inr (shoveIntoMap [] (Users rl), w)" by simp
  from a have l: "ListRepositoryCollaborators prctx (prstate w) = ((perms, Some e), c')" by simp
  from body_listing_fails[OF m' l]
  show "FindRandomRequesters prctx ?leaf w =
          Inr (([], Some (Wrap e ''Unable to list repository collaborators'')),
               w\<lparr>prstate := c', calls := calls w @ [CallListRepositoryCollaborators]\<rparr>)"
    by (simp add: FindRandomRequesters_def)
qed

theorem collaborators_listed_for_every_leaf_witness:
  "FindRandomRequesters (staticContext ''bob'' ([], None) ([], None) (readers [''a'', ''b''], None))
       treeMixed (world0 randZero (\<lambda>_ ks. ks))
     = Inr (([''a'', ''b''], None),
            \<lparr>rnd = randZero, prstate = 2,
             calls = [CallListRepositoryCollaborators, CallListRepositoryCollaborators],
             nranges = 2, mapOrder = (\<lambda>_ ks. ks)\<rparr>)
   \<and> count_list [CallListRepositoryCollaborators, CallListRepositoryCollaborators]
        CallListRepositoryCollaborators = length (findLeafChildren treeMixed)
   \<and> FindRandomRequesters_body
        (staticContext ''bob'' ([], None) ([], None) (readers [''a'', ''b''], None))
        leafA (world0 randZero (\<lambda>_ ks. ks))
      = Inr (Inr [''a''],
             \<lparr>rnd = randZero, prstate = 1, calls = [CallListRepositoryCollaborators],
              nranges = 1, mapOrder = (\<lambda>_ ks. ks)\<rparr>)
   \<and> count_list [CallListRepositoryCollaborators] CallListRepositoryCollaborators = 1
   \<and> FindRandomRequesters
        (staticContext ''bob'' ([], None) ([], None) ([], Some (New ''unavailable'')))
        (Result StatusPending None (usersOnly [''a''] 1) []) (world0 randZero (\<lambda>_ ks. ks))
      = Inr (([], Some (Wrap (New ''unavailable'') ''Unable to list repository collaborators'')),
             \<lparr>rnd = randZero, prstate = 1, calls = [CallListRepositoryCollaborators],
              nranges = 0, mapOrder = (\<lambda>_ ks. ks)\<rparr>)"
proof -
  let ?ctx = "staticContext ''bob'' ([], None) ([], None) (readers [''a'', ''b''], None)"
  let ?bad = "staticContext ''bob'' ([], None) ([], None) ([], Some (New ''unavailable''))"
  let ?w = "world0 randZero (\<lambda>_ ks. ks)"
  let ?w' = "\<lparr>rnd = randZero, prstate = 2,
             calls = [CallListRepositoryCollaborators, CallListRepositoryCollaborators],
             nranges = 2, mapOrder = (\<lambda>_ ks. ks)\<rparr> :: nat world"
  have e: "FindRandomRequesters ?ctx treeMixed ?w = Inr (([''a'', ''b''], None), ?w')"
    by (simp add: world_eval treeMixed_def leafA_def leafB_def leafFailed_def randZero_def)
  note t2 = collaborators_listed_for_every_leaf [where prctx = ?ctx and result = treeMixed
      and w = ?w and us = "[''a'', ''b'']" and w' = ?w', THEN conjunct2, THEN conjunct1, THEN mp, OF e]
  from t2 have c: "count_list [CallListRepositoryCollaborators, CallListRepositoryCollaborators]
        CallListRepositoryCollaborators = length (findLeafChildren treeMixed)"
    by (simp add: world0_def)
  let ?w1 = "\<lparr>rnd = randZero, prstate = 1, calls = [CallListRepositoryCollaborators],
              nranges = 1, mapOrder = (\<lambda>_ ks. ks)\<rparr> :: nat world"
  have b: "FindRandomRequesters_body ?ctx leafA ?w = Inr (Inr [''a''], ?w1)"
    by (simp add: world_eval leafA_def randZero_def)
  note t1 = collaborators_listed_for_every_leaf [where prctx = ?ctx and child = leafA
      and w = ?w and x = "Inr [''a'']" and w' = ?w1, THEN conjunct1, THEN mp, OF b]
  from t1 have c1: "count_list [CallListRepositoryCollaborators] CallListRepositoryCollaborators = 1"
    by (simp add: world0_def)
  have h: "Teams (usersOnly [''a''] 1) = [] \<and> Organizations (usersOnly [''a''] 1) = []
       \<and> \<not> Admins (usersOnly [''a''] 1) \<and> \<not> WriteCollaborators (usersOnly [''a''] 1)
       \<and> ListRepositoryCollaborators ?bad (prstate ?w) = (([], Some (New ''unavailable'')), 1)"
    by (simp add: usersOnly_def staticContext_def world0_def)
  note t3 = collaborators_listed_for_every_leaf [where prctx = ?bad and rl = "usersOnly [''a''] 1"
      and w = ?w and perms = "[]" and e = "New ''unavailable''" and c' = 1,
      THEN conjunct2, THEN conjunct2, THEN mp, OF h]
  from t3 have f: "FindRandomRequesters ?bad (Result StatusPending None (usersOnly [''a''] 1) []) ?w
      = Inr (([], Some (Wrap (New ''unavailable'') ''Unable to list repository collaborators'')),
             \<lparr>rnd = randZero, prstate = 1, calls = [CallListRepositoryCollaborators],
              nranges = 0, mapOrder = (\<lambda>_ ks. ks)\<rparr>)"
    by (simp add: world0_def)
  from e c b c1 f show ?thesis by blast
qed

section \<open>The candidate pool is the union of its sources\<close>

lemma teams_union:
  "FindRandomRequesters_teams prctx rl allUsers w = Inr (pool, w')
     \<Longrightarrow> set pool = set allUsers \<union> set (teamSource prctx rl w)"
proof (cases "length (Teams rl) > 0")
  case False
  then show ?thesis if "FindRandomRequesters_teams prctx rl allUsers w = Inr (pool, w')"
    using that by (simp add: FindRandomRequesters_teams_def teamSource_def)
next
  case True
  assume a: "FindRandomRequesters_teams prctx rl allUsers w = Inr (pool, w')"
  with True obtain tm err where
    "selectTeamMembers prctx (Teams rl) w = Inr ((tm, err), w')" "pool = shoveIntoMap allUsers tm"
    by (cases "selectTeamMembers prctx (Teams rl) w")
       (auto simp: FindRandomRequesters_teams_def)
  with True show ?thesis
    by (simp add: teamSource_def set_shoveIntoMap)
qed

lemma orgs_union:
  "FindRandomRequesters_orgs prctx rl allUsers w = (pool, w')
     \<Longrightarrow> set pool = set allUsers \<union> set (orgSource prctx rl w)"
  by (auto simp: FindRandomRequesters_orgs_def orgSource_def set_shoveIntoMap Let_def
           split: if_splits prod.splits)

lemma admins_union:
  "FindRandomRequesters_admins rl perms allUsers w = (pool, w')
     \<Longrightarrow> set pool = set allUsers \<union> set (adminSource rl perms w)"
  by (auto simp: FindRandomRequesters_admins_def adminSource_def set_shoveIntoMap Let_def
           split: if_splits prod.splits)

lemma writers_union:
  "FindRandomRequesters_writers rl perms allUsers w = (pool, w')
     \<Longrightarrow> set pool = set allUsers \<union> set (writeSource rl perms w)"
  by (auto simp: FindRandomRequesters_writers_def writeSource_def set_shoveIntoMap Let_def
           split: if_splits prod.splits)

text \<open>
  C8. The candidate pool that reaches the filter is built additively: starting from the
  explicit users, the team block, the organization block, the admin block and the
  write-collaborator block each add what they resolved to the pool they were given, so
  the pool after a block contains the pool before it, and the final pool is the union
  of the users with what the four blocks resolved.
\<close>

theorem candidate_pool_is_union:
  "FindRandomRequesters_candidates prctx rl w = Inr (Inr (perms, pool), w') \<longrightarrow>
     (\<exists>pool1 w1 pool2 w2 c' pool3 w3.
        FindRandomRequesters_teams prctx rl (shoveIntoMap [] (Users rl)) w = Inr (pool1, w1)
      \<and> FindRandomRequesters_orgs prctx rl pool1 w1 = (pool2, w2)
      \<and> ListRepositoryCollaborators prctx (prstate w2) = ((perms, None), c')
      \<and> FindRandomRequesters_admins rl perms pool2
            (w2\<lparr>prstate := c', calls := calls w2 @ [CallListRepositoryCollaborators]\<rparr>) = (pool3, w3)
      \<and> FindRandomRequesters_writers rl perms pool3 w3 = (pool, w')
      \<and> set pool1 = set (Users rl) \<union> set (teamSource prctx rl w)
      \<and> set pool2 = set pool1 \<union> set (orgSource prctx rl w1)
      \<and> set pool3 = set pool2
            \<union> set (adminSource rl perms
                      (w2\<lparr>prstate := c', calls := calls w2 @ [CallListRepositoryCollaborators]\<rparr>))
      \<and> set pool = set pool3 \<union> set (writeSource rl perms w3)
      \<and> set (Users rl) \<subseteq> set pool1 \<and> set pool1 \<subseteq> set pool2
      \<and> set pool2 \<subseteq> set pool3 \<and> set pool3 \<subseteq> set pool)"
proof
  assume c: "FindRandomRequesters_candidates prctx rl w = Inr (Inr (perms, pool), w')"
  then obtain allUsers w2 where
    m: "FindRandomRequesters_members prctx rl w = Inr (allUsers, w2)"
    by (auto simp: FindRandomRequesters_candidates_def split: sum.splits)
  then obtain pool1 w1 where
    t: "FindRandomRequesters_teams prctx rl (shoveIntoMap [] (Users rl)) w = Inr (pool1, w1)"
    and o: "FindRandomRequesters_orgs prctx rl pool1 w1 = (allUsers, w2)"
    by (auto simp: FindRandomRequesters_members_def split: sum.splits prod.splits)
  from c m obtain c' where
    l: "ListRepositoryCollaborators prctx (prstate w2) = ((perms, None), c')"
    by (auto simp: FindRandomRequesters_candidates_def Let_def
             split: prod.splits option.splits)
  let ?w = "w2\<lparr>prstate := c', calls := calls w2 @ [CallListRepositoryCollaborators]\<rparr>"
  obtain pool3 w3 where a: "FindRandomRequesters_admins rl perms allUsers ?w = (pool3, w3)"
    by (metis surj_pair)
  from c m l a have wr: "FindRandomRequesters_writers rl perms pool3 w3 = (pool, w')"
    by (auto simp: FindRandomRequesters_candidates_def split: prod.splits)
  have u1: "set pool1 = set (Users rl) \<union> set (teamSource prctx rl w)"
    using teams_union[OF t] by (simp add: set_shoveIntoMap)
  note u2 = orgs_union[OF o] and u3 = admins_union[OF a] and u4 = writers_union[OF wr]
  show "\<exists>pool1 w1 pool2 w2 c' pool3 w3.
        FindRandomRequesters_teams prctx rl (shoveIntoMap [] (Users rl)) w = Inr (pool1, w1)
      \<and> FindRandomRequesters_orgs prctx rl pool1 w1 = (pool2, w2)
      \<and> ListRepositoryCollaborators prctx (prstate w2) = ((perms, None), c')
      \<and> FindRandomRequesters_admins rl perms pool2
            (w2\<lparr>prstate := c', calls := calls w2 @ [CallListRepositoryCollaborators]\<rparr>) = (pool3, w3)
      \<and> FindRandomRequesters_writers rl perms pool3 w3 = (pool, w')
      \<and> set pool1 = set (Users rl) \<union> set (teamSource prctx rl w)
      \<and> set pool2 = set pool1 \<union> set (orgSource prctx rl w1)
      \<and> set pool3 = set pool2
            \<union> set (adminSource rl perms
                      (w2\<lparr>prstate := c', calls := calls w2 @ [CallListRepositoryCollaborators]\<rparr>))
      \<and> set pool = set pool3 \<union> set (writeSource rl perms w3)
      \<and> set (Users rl) \<subseteq> set pool1 \<and> set pool1 \<subseteq> set pool2
      \<and> set pool2 \<subseteq> set pool3 \<and> set pool3 \<subseteq> set pool"
    apply (rule exI[of _ pool1], rule exI[of _ w1], rule exI[of _ allUsers], rule exI[of _ w2],
           rule exI[of _ c'], rule exI[of _ pool3], rule exI[of _ w3])
    using t o l a wr u1 u2 u3 u4 by auto
qed

theorem candidate_pool_is_union_witness:
  "FindRandomRequesters_candidates fullContext fullRule (world0 randZero (\<lambda>_ ks. ks))
     = Inr (Inr (levelNamedPerms, [''a'', ''t'', ''o'', ''admin'', ''write'']),
            \<lparr>rnd = randZero\<lparr>used := 2\<rparr>, prstate = 3,
             calls = [CallListTeamMembers ''org'' ''team1'', CallListOrganizationMembers ''acme'',
                      CallListRepositoryCollaborators],
             nranges = 2, mapOrder = (\<lambda>_ ks. ks)\<rparr>)
   \<and> (\<exists>pool1 pool2 pool3.
         set (Users fullRule) \<subseteq> set pool1 \<and> set pool1 \<subseteq> set pool2 \<and> set pool2 \<subseteq> set pool3
         \<and> set pool3 \<subseteq> set [''a'', ''t'', ''o'', ''admin'', ''write''])"
proof -
  let ?w = "world0 randZero (\<lambda>_ ks. ks)"
  let ?w' = "\<lparr>rnd = randZero\<lparr>used := 2\<rparr>, prstate = 3,
             calls = [CallListTeamMembers ''org'' ''team1'', CallListOrganizationMembers ''acme'',
                      CallListRepositoryCollaborators],
             nranges = 2, mapOrder = (\<lambda>_ ks. ks)\<rparr> :: nat world"
  have e: "FindRandomRequesters_candidates fullContext fullRule ?w
     = Inr (Inr (levelNamedPerms, [''a'', ''t'', ''o'', ''admin'', ''write'']), ?w')"
    by (simp add: world_eval fullContext_def fullRule_def levelNamedPerms_def randZero_def)
  note t = candidate_pool_is_union [where prctx = fullContext and rl = fullRule and w = ?w
      and perms = levelNamedPerms and pool = "[''a'', ''t'', ''o'', ''admin'', ''write'']"
      and w' = ?w', THEN mp, OF e]
  from t have "\<exists>pool1 pool2 pool3.
         set (Users fullRule) \<subseteq> set pool1 \<and> set pool1 \<subseteq> set pool2 \<and> set pool2 \<subseteq> set pool3
         \<and> set pool3 \<subseteq> set [''a'', ''t'', ''o'', ''admin'', ''write'']"
    by blast
  with e show ?thesis by blast
qed

section \<open>Runs that differ only in the order of map iteration\<close>

lemma selectRandomUsers_draw_shape:
  "length users2 = length users \<Longrightarrow> length sels2 = length selections \<Longrightarrow>
   drawShape (selectRandomUsers_draw n users2 selected sels2 j r)
     = drawShape (selectRandomUsers_draw n users selected selections j r)"
proof (induction n users selected selections j r arbitrary: sels2 rule: selectRandomUsers_draw.induct)
  case (1 n users selected selections j r)
  show ?case
  proof (cases "j > n * 5")
    case True
    then show ?thesis
      using "1.prems" by (simp add: selectRandomUsers_draw.simps[of n _ selected _ j r] drawShape_def)
  next
    case False
    obtain m r1 where d: "Intn r (length users) = (m, r1)" by (metis surj_pair)
    show ?thesis
    proof (cases "selected m")
      case False
      with \<open>\<not> j > n * 5\<close> d "1.prems" show ?thesis
        by (simp add: selectRandomUsers_draw.simps[of n _ selected _ j r] drawShape_def)
    next
      case True
      from "1.IH"[OF \<open>\<not> j > n * 5\<close> d[symmetric] refl _ "1.prems"] True
      have "drawShape (selectRandomUsers_draw n users2 selected sels2 (j + 1) r1)
          = drawShape (selectRandomUsers_draw n users selected selections (j + 1) r1)"
        by simp
      with \<open>\<not> j > n * 5\<close> d "1.prems" True show ?thesis
        by (simp add: selectRandomUsers_draw.simps[of n _ selected _ j r])
    qed
  qed
qed

lemma selectRandomUsers_loop_shape:
  "length users2 = length users \<Longrightarrow> length sels2 = length selections \<Longrightarrow>
   sampleShape (selectRandomUsers_loop n users2 i selected sels2 r)
     = sampleShape (selectRandomUsers_loop n users i selected selections r)"
proof (induction n users i selected selections r arbitrary: sels2 rule: selectRandomUsers_loop.induct)
  case (1 n users i selected selections r)
  show ?case
  proof (cases "i < n")
    case False
    with "1.prems" show ?thesis
      by (simp add: selectRandomUsers_loop.simps[of n _ i selected _ r] sampleShape_def)
  next
    case True
    note ds = selectRandomUsers_draw_shape[OF "1.prems", of n selected 0 r]
    show ?thesis
    proof (cases "selectRandomUsers_draw n users selected selections 0 r")
      case (Inl p)
      with ds obtain q where "selectRandomUsers_draw n users2 selected sels2 0 r = Inl q" "q = p"
        by (cases "selectRandomUsers_draw n users2 selected sels2 0 r") (auto simp: drawShape_def)
      with Inl True show ?thesis
        by (simp add: selectRandomUsers_loop.simps[of n _ i selected _ r] sampleShape_def)
    next
      case (Inr b)
      obtain s1 sl1 r1 where b: "b = (s1, sl1, r1)" by (cases b)
      with Inr ds obtain sl2 where
        d2: "selectRandomUsers_draw n users2 selected sels2 0 r = Inr (s1, sl2, r1)"
        and len: "length sl2 = length sl1"
        by (cases "selectRandomUsers_draw n users2 selected sels2 0 r") (auto simp: drawShape_def)
      from "1.IH"[OF True Inr[unfolded b] refl refl "1.prems"(1) len]
      show ?thesis using True Inr b d2
        by (simp add: selectRandomUsers_loop.simps[of n _ i selected _ r])
    qed
  qed
qed

lemma selectRandomUsers_shape:
  "length users2 = length users \<Longrightarrow>
   sampleShape (selectRandomUsers n users2 r) = sampleShape (selectRandomUsers n users r)"
  using selectRandomUsers_loop_shape[of users2 users "[]" "[]" n 0 "\<lambda>_. False" r]
  by (simp add: selectRandomUsers_def sampleShape_def)

lemma agree_core: "agreeButMapOrder w1 w2 = (worldCore w1 = worldCore w2)"
  by (auto simp: agreeButMapOrder_def worldCore_def)

lemma core_fields:
  "worldCore wB = worldCore wA \<Longrightarrow> rnd wB = rnd wA \<and> prstate wB = prstate wA \<and> calls wB = calls wA"
  by (simp add: worldCore_def)

lemma core_listed:
  "worldCore wB = worldCore wA \<Longrightarrow>
   worldCore (wB\<lparr>prstate := c, calls := calls wB @ [x]\<rparr>)
     = worldCore (wA\<lparr>prstate := c, calls := calls wA @ [x]\<rparr>)"
  by (simp add: worldCore_def)

lemma selectTeamMembers_core:
  assumes "worldCore wB = worldCore wA"
  shows "map_sum id (\<lambda>(x, w). (x, worldCore w)) (selectTeamMembers prctx ts wB)
       = map_sum id (\<lambda>(x, w). (x, worldCore w)) (selectTeamMembers prctx ts wA)"
  using assms
  by (simp add: selectTeamMembers_def worldCore_def Let_def split: prod.splits option.splits)

lemma selectTeamMembers_mapOrder:
  "selectTeamMembers prctx ts w = Inr (x, w') \<Longrightarrow> mapOrder w' = mapOrder w"
  by (auto simp: selectTeamMembers_def Let_def split: prod.splits option.splits if_splits)

lemma teams_core:
  assumes "worldCore wB = worldCore wA"
  shows "map_sum id (\<lambda>(x, w). (x, worldCore w)) (FindRandomRequesters_teams prctx rl p wB)
       = map_sum id (\<lambda>(x, w). (x, worldCore w)) (FindRandomRequesters_teams prctx rl p wA)"
proof (cases "length (Teams rl) > 0")
  case False
  with assms show ?thesis by (simp add: FindRandomRequesters_teams_def)
next
  case True
  note s = selectTeamMembers_core[OF assms, of prctx "Teams rl"]
  show ?thesis
  proof (cases "selectTeamMembers prctx (Teams rl) wA")
    case (Inl a)
    with s have "selectTeamMembers prctx (Teams rl) wB = Inl a"
      by (cases "selectTeamMembers prctx (Teams rl) wB") auto
    with Inl True show ?thesis by (simp add: FindRandomRequesters_teams_def)
  next
    case (Inr b)
    obtain tm err w1 where b: "b = ((tm, err), w1)" by (metis surj_pair)
    with Inr s obtain w2 where "selectTeamMembers prctx (Teams rl) wB = Inr ((tm, err), w2)"
      "worldCore w2 = worldCore w1"
      by (cases "selectTeamMembers prctx (Teams rl) wB") auto
    with Inr b True show ?thesis by (simp add: FindRandomRequesters_teams_def)
  qed
qed

lemma teams_mapOrder:
  "FindRandomRequesters_teams prctx rl p w = Inr (x, w') \<Longrightarrow> mapOrder w' = mapOrder w"
  by (cases "selectTeamMembers prctx (Teams rl) w")
     (auto simp: FindRandomRequesters_teams_def split: if_splits dest: selectTeamMembers_mapOrder)

lemma orgs_core:
  assumes "worldCore wB = worldCore wA"
  shows "(\<lambda>(x, w). (x, worldCore w)) (FindRandomRequesters_orgs prctx rl p wB)
       = (\<lambda>(x, w). (x, worldCore w)) (FindRandomRequesters_orgs prctx rl p wA)"
  using assms
  by (simp add: FindRandomRequesters_orgs_def worldCore_def Let_def split: prod.splits)

lemma orgs_mapOrder:
  "mapOrder (snd (FindRandomRequesters_orgs prctx rl p w)) = mapOrder w"
  by (simp add: FindRandomRequesters_orgs_def Let_def split: prod.splits)

lemma members_core:
  assumes "worldCore wB = worldCore wA"
  shows "map_sum id (\<lambda>(x, w). (x, worldCore w)) (FindRandomRequesters_members prctx rl wB)
       = map_sum id (\<lambda>(x, w). (x, worldCore w)) (FindRandomRequesters_members prctx rl wA)"
proof -
  let ?p = "shoveIntoMap [] (Users rl)"
  note t = teams_core[OF assms, of prctx rl ?p]
  show ?thesis
  proof (cases "FindRandomRequesters_teams prctx rl ?p wA")
    case (Inl a)
    with t have "FindRandomRequesters_teams prctx rl ?p wB = Inl a"
      by (cases "FindRandomRequesters_teams prctx rl ?p wB") auto
    with Inl show ?thesis by (simp add: FindRandomRequesters_members_def)
  next
    case (Inr b)
    obtain p1 w1 where b: "b = (p1, w1)" by (metis surj_pair)
    with Inr t obtain w2 where tb: "FindRandomRequesters_teams prctx rl ?p wB = Inr (p1, w2)"
      and c: "worldCore w2 = worldCore w1"
      by (cases "FindRandomRequesters_teams prctx rl ?p wB") auto
    from orgs_core[OF c, of prctx rl p1] Inr b tb show ?thesis
      by (simp add: FindRandomRequesters_members_def)
  qed
qed

lemma members_mapOrder:
  assumes "FindRandomRequesters_members prctx rl w = Inr (x, w')"
  shows "mapOrder w' = mapOrder w"
proof -
  from assms obtain p1 w1 where
    t: "FindRandomRequesters_teams prctx rl (shoveIntoMap [] (Users rl)) w = Inr (p1, w1)"
    and o: "FindRandomRequesters_orgs prctx rl p1 w1 = (x, w')"
    by (auto simp: FindRandomRequesters_members_def split: sum.splits prod.splits)
  from orgs_mapOrder[of prctx rl p1 w1] o teams_mapOrder[OF t] show ?thesis by simp
qed

lemma members_rel:
  assumes "worldCore wB = worldCore wA"
  shows "(\<forall>p. FindRandomRequesters_members prctx rl wA = Inl p
             \<longrightarrow> FindRandomRequesters_members prctx rl wB = Inl p)
       \<and> (\<forall>pool wA'. FindRandomRequesters_members prctx rl wA = Inr (pool, wA')
             \<longrightarrow> (\<exists>wB'. FindRandomRequesters_members prctx rl wB = Inr (pool, wB')
                       \<and> worldCore wB' = worldCore wA'))"
  using members_core[OF assms, of prctx rl]
  by (cases "FindRandomRequesters_members prctx rl wA";
      cases "FindRandomRequesters_members prctx rl wB") auto

lemma teams_distinct:
  assumes "FindRandomRequesters_teams prctx rl p w = Inr (pool, w')" "distinct p"
  shows "distinct pool"
proof (cases "length (Teams rl) > 0")
  case False
  with assms show ?thesis by (simp add: FindRandomRequesters_teams_def)
next
  case True
  with assms(1) obtain tm where "pool = shoveIntoMap p tm"
    by (cases "selectTeamMembers prctx (Teams rl) w")
       (auto simp: FindRandomRequesters_teams_def)
  with assms(2) show ?thesis by (simp add: distinct_shoveIntoMap)
qed

lemma orgs_distinct:
  "distinct p \<Longrightarrow> distinct (fst (FindRandomRequesters_orgs prctx rl p w))"
  by (simp add: FindRandomRequesters_orgs_def Let_def distinct_shoveIntoMap split: prod.splits)

lemma members_distinct:
  assumes "FindRandomRequesters_members prctx rl w = Inr (pool, w')"
  shows "distinct pool"
proof -
  from assms obtain p1 w1 where
    t: "FindRandomRequesters_teams prctx rl (shoveIntoMap [] (Users rl)) w = Inr (p1, w1)"
    and o: "FindRandomRequesters_orgs prctx rl p1 w1 = (pool, w')"
    by (auto simp: FindRandomRequesters_members_def split: sum.splits prod.splits)
  have "distinct p1" using teams_distinct[OF t] by (simp add: distinct_shoveIntoMap)
  from orgs_distinct[OF this, of prctx rl w1] o show ?thesis by simp
qed

lemma admins_rel:
  assumes "worldCore wB = worldCore wA" "visitsEachKeyOnce wA" "visitsEachKeyOnce wB"
      and "set pB = set pA" "distinct pA" "distinct pB"
      and "FindRandomRequesters_admins rl perms pA wA = (qA, wA')"
      and "FindRandomRequesters_admins rl perms pB wB = (qB, wB')"
  shows "set qB = set qA \<and> distinct qA \<and> distinct qB \<and> worldCore wB' = worldCore wA'
       \<and> mapOrder wA' = mapOrder wA \<and> mapOrder wB' = mapOrder wB"
  using assms
  by (auto simp: FindRandomRequesters_admins_def rangeMap_def Let_def set_shoveIntoMap
      distinct_shoveIntoMap set_collectPermission visits_set worldCore_def split: if_splits)

lemma writers_rel:
  assumes "worldCore wB = worldCore wA" "visitsEachKeyOnce wA" "visitsEachKeyOnce wB"
      and "set pB = set pA" "distinct pA" "distinct pB"
      and "FindRandomRequesters_writers rl perms pA wA = (qA, wA')"
      and "FindRandomRequesters_writers rl perms pB wB = (qB, wB')"
  shows "set qB = set qA \<and> distinct qA \<and> distinct qB \<and> worldCore wB' = worldCore wA'
       \<and> mapOrder wA' = mapOrder wA \<and> mapOrder wB' = mapOrder wB"
  using assms
  by (auto simp: FindRandomRequesters_writers_def rangeMap_def Let_def set_shoveIntoMap
      distinct_shoveIntoMap set_collectPermission visits_set worldCore_def split: if_splits)

lemma filter_rel:
  assumes "worldCore wB = worldCore wA" "visitsEachKeyOnce wA" "visitsEachKeyOnce wB"
      and "set pB = set pA" "distinct pA" "distinct pB"
      and "FindRandomRequesters_filter prctx perms pA wA = (uA, wA')"
      and "FindRandomRequesters_filter prctx perms pB wB = (uB, wB')"
  shows "length uB = length uA \<and> worldCore wB' = worldCore wA'
       \<and> mapOrder wA' = mapOrder wA \<and> mapOrder wB' = mapOrder wB"
proof -
  let ?P = "\<lambda>u. u \<noteq> Author prctx \<and> map_of perms u \<noteq> None"
  have "mset pB = mset pA"
    using assms(4-6) by (simp add: set_eq_iff_mset_eq_distinct)
  then have "mset (mapOrder wB (nranges wB) pB) = mset (mapOrder wA (nranges wA) pA)"
    using visits_length[OF assms(2)] visits_length[OF assms(3)] by simp
  then have "mset (filter ?P (mapOrder wB (nranges wB) pB))
           = mset (filter ?P (mapOrder wA (nranges wA) pA))"
    by simp
  then have "length (filter ?P (mapOrder wB (nranges wB) pB))
           = length (filter ?P (mapOrder wA (nranges wA) pA))"
    by (rule mset_eq_length)
  with assms(1,7,8) show ?thesis
    by (auto simp: FindRandomRequesters_filter_def rangeMap_def keepEligible_filter worldCore_def)
qed

lemma visits_mapOrder: "mapOrder w' = mapOrder w \<Longrightarrow> visitsEachKeyOnce w' = visitsEachKeyOnce w"
  by (simp add: visitsEachKeyOnce_def)

lemma admins_mapOrder: "mapOrder (snd (FindRandomRequesters_admins rl perms p w)) = mapOrder w"
  by (simp add: FindRandomRequesters_admins_def rangeMap_def Let_def)

lemma writers_mapOrder: "mapOrder (snd (FindRandomRequesters_writers rl perms p w)) = mapOrder w"
  by (simp add: FindRandomRequesters_writers_def rangeMap_def Let_def)

lemma filter_mapOrder: "mapOrder (snd (FindRandomRequesters_filter prctx perms p w)) = mapOrder w"
  by (simp add: FindRandomRequesters_filter_def rangeMap_def Let_def)

lemma candidates_mapOrder:
  assumes "FindRandomRequesters_candidates prctx rl w = Inr (x, w')"
  shows "mapOrder w' = mapOrder w"
proof (cases rule: candidates_cases[of prctx rl w])
  case (panic p)
  with assms show ?thesis by simp
next
  case (failed allUsers w1 perms e c')
  with assms members_mapOrder[OF failed(1)] show ?thesis by auto
next
  case (listed allUsers w1 perms c' p3 w3 p4 w4)
  let ?w2 = "w1\<lparr>prstate := c', calls := calls w1 @ [CallListRepositoryCollaborators]\<rparr>"
  from admins_mapOrder[of rl perms allUsers ?w2] listed(3) have "mapOrder w3 = mapOrder w1" by simp
  moreover from writers_mapOrder[of rl perms p3 w3] listed(4) have "mapOrder w4 = mapOrder w3" by simp
  ultimately show ?thesis using assms listed(5) members_mapOrder[OF listed(1)] by simp
qed

lemma body_mapOrder:
  assumes "FindRandomRequesters_body prctx child w = Inr (x, w')"
  shows "mapOrder w' = mapOrder w"
proof (cases "FindRandomRequesters_candidates prctx (ReviewRequestRule child) w")
  case (Inl p)
  with assms show ?thesis by (simp add: FindRandomRequesters_body_def)
next
  case (Inr b)
  obtain y wc where b: "b = (y, wc)" by (cases b)
  note c = candidates_mapOrder[OF Inr[unfolded b]]
  show ?thesis
  proof (cases y)
    case (Inl e)
    with assms Inr b c show ?thesis by (auto simp: FindRandomRequesters_body_def)
  next
    case (Inr pp)
    obtain perms pool where pp: "pp = (perms, pool)" by (cases pp)
    obtain ul w5 where f: "FindRandomRequesters_filter prctx perms pool wc = (ul, w5)"
      by (metis surj_pair)
    from filter_mapOrder[of prctx perms pool wc] f have "mapOrder w5 = mapOrder wc" by simp
    moreover from assms \<open>FindRandomRequesters_candidates prctx (ReviewRequestRule child) w = Inr b\<close>
      b Inr pp f
    have "mapOrder w' = mapOrder w5"
      by (auto simp: FindRandomRequesters_body_def split: sum.splits)
    ultimately show ?thesis using c by simp
  qed
qed

lemma candidates_rel:
  assumes core: "worldCore wB = worldCore wA"
      and vA: "visitsEachKeyOnce wA" and vB: "visitsEachKeyOnce wB"
  shows "(\<forall>p. FindRandomRequesters_candidates prctx rl wA = Inl p
             \<longrightarrow> FindRandomRequesters_candidates prctx rl wB = Inl p)
       \<and> (\<forall>e wA'. FindRandomRequesters_candidates prctx rl wA = Inr (Inl e, wA')
             \<longrightarrow> (\<exists>wB'. FindRandomRequesters_candidates prctx rl wB = Inr (Inl e, wB')
                       \<and> worldCore wB' = worldCore wA'))
       \<and> (\<forall>perms pA wA'. FindRandomRequesters_candidates prctx rl wA = Inr (Inr (perms, pA), wA')
             \<longrightarrow> (\<exists>pB wB'. FindRandomRequesters_candidates prctx rl wB = Inr (Inr (perms, pB), wB')
                       \<and> set pB = set pA \<and> distinct pA \<and> distinct pB
                       \<and> worldCore wB' = worldCore wA'))"
proof (cases rule: candidates_cases[of prctx rl wA])
  case (panic p)
  with members_rel[OF core, of prctx rl]
  have "FindRandomRequesters_members prctx rl wB = Inl p" by simp
  then have "FindRandomRequesters_candidates prctx rl wB = Inl p"
    by (simp add: FindRandomRequesters_candidates_def)
  with panic(2) show ?thesis by simp
next
  case (failed allUsers w1 perms e c')
  from members_rel[OF core, of prctx rl] failed(1) obtain w1B where
    mB: "FindRandomRequesters_members prctx rl wB = Inr (allUsers, w1B)"
    and c1: "worldCore w1B = worldCore w1" by blast
  from failed(2) core_fields[OF c1]
  have "ListRepositoryCollaborators prctx (prstate w1B) = ((perms, Some e), c')" by simp
  with mB have "FindRandomRequesters_candidates prctx rl wB =
      Inr (Inl (Wrap e ''Unable to list repository collaborators''),
           w1B\<lparr>prstate := c', calls := calls w1B @ [CallListRepositoryCollaborators]\<rparr>)"
    by (simp add: FindRandomRequesters_candidates_def)
  with failed(3) core_listed[OF c1, where c = c' and x = CallListRepositoryCollaborators] show ?thesis by simp
next
  case (listed allUsers w1 perms c' p3 w3 p4 w4)
  let ?w2 = "w1\<lparr>prstate := c', calls := calls w1 @ [CallListRepositoryCollaborators]\<rparr>"
  from members_rel[OF core, of prctx rl] listed(1) obtain w1B where
    mB: "FindRandomRequesters_members prctx rl wB = Inr (allUsers, w1B)"
    and c1: "worldCore w1B = worldCore w1" by blast
  let ?w2B = "w1B\<lparr>prstate := c', calls := calls w1B @ [CallListRepositoryCollaborators]\<rparr>"
  from listed(2) core_fields[OF c1]
  have lB: "ListRepositoryCollaborators prctx (prstate w1B) = ((perms, None), c')" by simp
  have c2: "worldCore ?w2B = worldCore ?w2"
    by (rule core_listed[OF c1])
  have v2: "visitsEachKeyOnce ?w2"
    using vA members_mapOrder[OF listed(1)] by (simp add: visitsEachKeyOnce_def)
  have v2B: "visitsEachKeyOnce ?w2B"
    using vB members_mapOrder[OF mB] by (simp add: visitsEachKeyOnce_def)
  have d: "distinct allUsers" by (rule members_distinct[OF listed(1)])
  obtain p3B w3B where aB: "FindRandomRequesters_admins rl perms allUsers ?w2B = (p3B, w3B)"
    by (metis surj_pair)
  obtain p4B w4B where wB: "FindRandomRequesters_writers rl perms p3B w3B = (p4B, w4B)"
    by (metis surj_pair)
  note a = admins_rel[OF c2 v2 v2B refl d d listed(3) aB]
  have v3: "visitsEachKeyOnce w3" using a v2 by (simp add: visitsEachKeyOnce_def)
  have v3B: "visitsEachKeyOnce w3B" using a v2B by (simp add: visitsEachKeyOnce_def)
  from a have a1: "worldCore w3B = worldCore w3" and a2: "set p3B = set p3"
    and a3: "distinct p3" and a4: "distinct p3B" by simp_all
  note b = writers_rel[OF a1 v3 v3B a2 a3 a4 listed(4) wB]
  from mB lB aB wB have "FindRandomRequesters_candidates prctx rl wB = Inr (Inr (perms, p4B), w4B)"
    by (simp add: FindRandomRequesters_candidates_def)
  with listed(5) b show ?thesis by simp
qed

lemma body_rel:
  assumes core: "worldCore wB = worldCore wA"
      and vA: "visitsEachKeyOnce wA" and vB: "visitsEachKeyOnce wB"
  shows "bodyShape (FindRandomRequesters_body prctx child wB)
       = bodyShape (FindRandomRequesters_body prctx child wA)"
proof -
  let ?rl = "ReviewRequestRule child"
  note cr = candidates_rel[OF core vA vB, of prctx ?rl]
  show ?thesis
  proof (cases "FindRandomRequesters_candidates prctx ?rl wA")
    case (Inl p)
    with cr have "FindRandomRequesters_candidates prctx ?rl wB = Inl p" by simp
    with Inl show ?thesis by (simp add: FindRandomRequesters_body_def)
  next
    case (Inr b)
    obtain y wA' where b: "b = (y, wA')" by (cases b)
    show ?thesis
    proof (cases y)
      case (Inl e)
      with Inr b cr obtain wB' where
        "FindRandomRequesters_candidates prctx ?rl wB = Inr (Inl e, wB')"
        "worldCore wB' = worldCore wA'" by blast
      with Inr b Inl show ?thesis by (simp add: FindRandomRequesters_body_def bodyShape_def)
    next
      case (Inr pp)
      obtain perms pA where pp: "pp = (perms, pA)" by (cases pp)
      from \<open>FindRandomRequesters_candidates prctx ?rl wA = Inr b\<close> b Inr pp
      have cA: "FindRandomRequesters_candidates prctx ?rl wA = Inr (Inr (perms, pA), wA')" by simp
      with cr obtain pB wB' where
        cB: "FindRandomRequesters_candidates prctx ?rl wB = Inr (Inr (perms, pB), wB')"
        and s: "set pB = set pA" and dA: "distinct pA" and dB: "distinct pB"
        and c': "worldCore wB' = worldCore wA'" by blast
      have vA': "visitsEachKeyOnce wA'"
        using vA candidates_mapOrder[OF cA] by (simp add: visitsEachKeyOnce_def)
      have vB': "visitsEachKeyOnce wB'"
        using vB candidates_mapOrder[OF cB] by (simp add: visitsEachKeyOnce_def)
      obtain uA w5A where fA: "FindRandomRequesters_filter prctx perms pA wA' = (uA, w5A)"
        by (metis surj_pair)
      obtain uB w5B where fB: "FindRandomRequesters_filter prctx perms pB wB' = (uB, w5B)"
        by (metis surj_pair)
      note f = filter_rel[OF c' vA' vB' s dA dB fA fB]
      then have len: "length uB = length uA" and c5: "worldCore w5B = worldCore w5A" by simp_all
      have r5: "rnd w5B = rnd w5A" using core_fields[OF c5] by simp
      note sh = selectRandomUsers_shape[OF len, of "RequiredCount ?rl" "rnd w5A"]
      show ?thesis
      proof (cases "selectRandomUsers (RequiredCount ?rl) uA (rnd w5A)")
        case (Inl p)
        with sh have "selectRandomUsers (RequiredCount ?rl) uB (rnd w5A) = Inl p"
          by (cases "selectRandomUsers (RequiredCount ?rl) uB (rnd w5A)")
             (auto simp: sampleShape_def)
        with Inl cA cB fA fB r5 show ?thesis
          by (simp add: FindRandomRequesters_body_def bodyShape_def)
      next
        case (Inr sr)
        obtain selA r' where sr: "sr = (selA, r')" by (cases sr)
        with Inr sh obtain selB where
          "selectRandomUsers (RequiredCount ?rl) uB (rnd w5A) = Inr (selB, r')"
          "length selB = length selA"
          by (cases "selectRandomUsers (RequiredCount ?rl) uB (rnd w5A)")
             (auto simp: sampleShape_def)
        with Inr sr cA cB fA fB r5 core_fields[OF c5] show ?thesis
          by (simp add: FindRandomRequesters_body_def bodyShape_def worldCore_def)
      qed
    qed
  qed
qed

lemma leaf_loop_rel:
  "worldCore wB = worldCore wA \<Longrightarrow> visitsEachKeyOnce wA \<Longrightarrow> visitsEachKeyOnce wB
     \<Longrightarrow> length accB = length accA
     \<Longrightarrow> loopShape (FindRandomRequesters_loop prctx leaves accB wB)
           = loopShape (FindRandomRequesters_loop prctx leaves accA wA)"
proof (induction leaves arbitrary: accA accB wA wB)
  case Nil
  then show ?case by (simp add: loopShape_def)
next
  case (Cons child rest)
  note br = body_rel[OF Cons.prems(1-3), of prctx child]
  show ?case
  proof (cases "FindRandomRequesters_body prctx child wA")
    case (Inl p)
    with br have "FindRandomRequesters_body prctx child wB = Inl p"
      by (cases "FindRandomRequesters_body prctx child wB") (auto simp: bodyShape_def)
    with Inl show ?thesis by (simp add: loopShape_def)
  next
    case (Inr b)
    obtain y wA' where b: "b = (y, wA')" by (cases b)
    with Inr br obtain yB wB' where
      bB: "FindRandomRequesters_body prctx child wB = Inr (yB, wB')"
      and ys: "map_sum id length yB = map_sum id length y"
      and c': "worldCore wB' = worldCore wA'"
      by (cases "FindRandomRequesters_body prctx child wB") (auto simp: bodyShape_def)
    have vA': "visitsEachKeyOnce wA'"
      using Cons.prems(2) body_mapOrder[OF Inr[unfolded b]] by (simp add: visitsEachKeyOnce_def)
    have vB': "visitsEachKeyOnce wB'"
      using Cons.prems(3) body_mapOrder[OF bB] by (simp add: visitsEachKeyOnce_def)
    show ?thesis
    proof (cases y)
      case (Inl e)
      with ys have "yB = Inl e" by (cases yB) auto
      with Inl Inr b bB c' show ?thesis by (simp add: loopShape_def)
    next
      case (Inr selA)
      with ys obtain selB where yB: "yB = Inr selB" and len: "length selB = length selA"
        by (cases yB) auto
      have "length (accB @ selB) = length (accA @ selA)" using len Cons.prems(4) by simp
      from Cons.IH[OF c' vA' vB' this] Inr yB bB
        \<open>FindRandomRequesters_body prctx child wA = Inr b\<close> b
      show ?thesis by simp
    qed
  qed
qed

lemma sameButIdentities_shape: "sameButIdentities x y = (loopShape x = loopShape y)"
  by (cases x; cases y) (auto simp: loopShape_def agree_core)

text \<open>
  C10, as amended. Two runs on the same tree, with the same context in the same state
  and the same random source in the same state, end alike whatever orders the runtime
  picks for its map iterations: in the same panic, or returning the same error and as
  many reviewers, with the random source, the context and the listing calls in the same
  final state. Which identities are returned depends on the map orders as well.
\<close>

theorem outcome_up_to_identities:
  "agreeButMapOrder w1 w2 \<and> visitsEachKeyOnce w1 \<and> visitsEachKeyOnce w2 \<longrightarrow>
     sameButIdentities (FindRandomRequesters prctx result w1) (FindRandomRequesters prctx result w2)"
  using leaf_loop_rel[of w1 w2 "[]" "[]" prctx "findLeafChildren result"]
  by (auto simp: sameButIdentities_shape agree_core FindRandomRequesters_def)

theorem outcome_up_to_identities_witness:
  "agreeButMapOrder (world0 randZero (\<lambda>_ ks. ks)) (world0 randZero (\<lambda>_ ks. rev ks))
   \<and> visitsEachKeyOnce (world0 randZero (\<lambda>_ ks. ks))
   \<and> visitsEachKeyOnce (world0 randZero (\<lambda>_ ks. rev ks))
   \<and> sameButIdentities
        (FindRandomRequesters xyContext xyLeaf (world0 randZero (\<lambda>_ ks. ks)))
        (FindRandomRequesters xyContext xyLeaf (world0 randZero (\<lambda>_ ks. rev ks)))"
proof -
  have h: "agreeButMapOrder (world0 randZero (\<lambda>_ ks. ks)) (world0 randZero (\<lambda>_ ks. rev ks))
   \<and> visitsEachKeyOnce (world0 randZero (\<lambda>_ ks. ks))
   \<and> visitsEachKeyOnce (world0 randZero (\<lambda>_ ks. rev ks))"
    by (simp add: agreeButMapOrder_def visitsEachKeyOnce_def world0_def)
  from outcome_up_to_identities [where ?w1.0 = "world0 randZero (\<lambda>_ ks. ks)"
      and ?w2.0 = "world0 randZero (\<lambda>_ ks. rev ks)" and prctx = xyContext and result = xyLeaf,
      THEN mp, OF h] h
  show ?thesis by blast
qed

text \<open>
  C10, as stated, fails. With the collaborators \<open>x\<close> and \<open>y\<close> both named by a rule
  that requires one reviewer, and the random source answering index 0, the run returns
  \<open>x\<close> when the candidate map is visited in one order and \<open>y\<close> when it is visited in
  the other. The tree, the context and the random source are the same in both runs.
\<close>

theorem map_order_changes_selection:
  "FindRandomRequesters xyContext xyLeaf (world0 randZero (\<lambda>_ ks. ks))
     = Inr (([''x''], None),
            \<lparr>rnd = randZero\<lparr>used := 1\<rparr>, prstate = 1, calls = [CallListRepositoryCollaborators],
             nranges = 1, mapOrder = (\<lambda>_ ks. ks)\<rparr>)
   \<and> FindRandomRequesters xyContext xyLeaf (world0 randZero (\<lambda>_ ks. rev ks))
     = Inr (([''y''], None),
            \<lparr>rnd = randZero\<lparr>used := 1\<rparr>, prstate = 1, calls = [CallListRepositoryCollaborators],
             nranges = 1, mapOrder = (\<lambda>_ ks. rev ks)\<rparr>)
   \<and> rnd (world0 randZero (\<lambda>_ ks. ks)) = rnd (world0 randZero (\<lambda>_ ks. rev ks))
   \<and> prstate (world0 randZero (\<lambda>_ ks. ks)) = prstate (world0 randZero (\<lambda>_ ks. rev ks))"
  by (simp add: world_eval xyContext_def xyLeaf_def randZero_def)

section \<open>Failures of the member listings\<close>

lemma selectTeamMembers_failed:
  assumes "\<forall>org team c. snd (fst (ListTeamMembers prctx org team c)) \<noteq> None"
      and "selectTeamMembers prctx ts w = Inr ((tm, err), w')"
  shows "tm = []"
proof -
  obtain i r' where d: "Intn (rnd w) (length ts) = (i, r')" by (metis surj_pair)
  let ?ti = "Split (ts ! i) (CHR ''/'')"
  obtain tm0 err0 c' where
    l: "ListTeamMembers prctx (?ti ! 0) (?ti ! 1) (prstate w) = ((tm0, err0), c')"
    by (metis surj_pair)
  from assms(1) l have "err0 \<noteq> None" by (metis fst_conv snd_conv)
  then obtain e where "err0 = Some e" by blast
  with assms(2) d l show ?thesis
    by (simp add: selectTeamMembers_def Let_def split: if_splits)
qed

lemma orgs_pool:
  "fst (FindRandomRequesters_orgs prctx rl allUsers w)
     = shoveIntoMap allUsers (orgSource prctx rl w)"
  by (auto simp: FindRandomRequesters_orgs_def orgSource_def Let_def split: prod.splits)

lemma body_error_source:
  assumes "FindRandomRequesters_body prctx child w = Inr (Inl e, w')"
  shows "\<exists>e0 c perms c'. ListRepositoryCollaborators prctx c = ((perms, Some e0), c')
           \<and> e = Wrap e0 ''Unable to list repository collaborators''"
proof (cases rule: candidates_cases[of prctx "ReviewRequestRule child" w])
  case (panic p)
  with assms show ?thesis by (simp add: FindRandomRequesters_body_def)
next
  case (failed allUsers w1 perms e0 c')
  with assms have "e = Wrap e0 ''Unable to list repository collaborators''"
    by (simp add: FindRandomRequesters_body_def)
  with failed(2) show ?thesis by blast
next
  case (listed allUsers w1 perms c' p3 w3 p4 w4)
  with assms show ?thesis
    by (auto simp: FindRandomRequesters_body_def split: prod.splits sum.splits)
qed

lemma leaf_loop_error_source:
  "FindRandomRequesters_loop prctx leaves acc w = Inr ((us, Some e), w')
     \<Longrightarrow> \<exists>e0 c perms c'. ListRepositoryCollaborators prctx c = ((perms, Some e0), c')
            \<and> e = Wrap e0 ''Unable to list repository collaborators''"
proof (induction leaves arbitrary: acc w)
  case Nil
  then show ?case by simp
next
  case (Cons child rest)
  show ?case
  proof (cases "FindRandomRequesters_body prctx child w")
    case (Inl p)
    with Cons.prems show ?thesis by simp
  next
    case (Inr b)
    obtain y w1 where b: "b = (y, w1)" by (cases b)
    show ?thesis
    proof (cases y)
      case (Inl e1)
      with Inr b Cons.prems have "e1 = e" by simp
      with Inl Inr b body_error_source[of prctx child w e w1] show ?thesis by simp
    next
      case (Inr sel)
      with \<open>FindRandomRequesters_body prctx child w = Inr b\<close> b Cons.prems
      have "FindRandomRequesters_loop prctx rest (acc @ sel) w1 = Inr ((us, Some e), w')" by simp
      then show ?thesis by (rule Cons.IH)
    qed
  qed
qed

text \<open>
  What holds of the member listings. Every error that \<open>FindRandomRequesters\<close> returns
  is the wrapped error of a listing of the collaborators, never one of a team or of an
  organization. After a failed team listing the candidate pool is exactly as it was
  before the team block. After the organization block the pool is the pool before it
  together with the members that the context answered, error or not: it is exactly as
  before when a failed listing answers no members.
\<close>

theorem member_listing_failures_not_fatal:
  "((\<forall>org team c. snd (fst (ListTeamMembers prctx org team c)) \<noteq> None)
      \<and> FindRandomRequesters_teams prctx rl allUsers w = Inr (pool, w1)
    \<longrightarrow> pool = allUsers)
   \<and> ((\<forall>org c. \<exists>e. fst (ListOrganizationMembers prctx org c) = ([], Some e))
    \<longrightarrow> fst (FindRandomRequesters_orgs prctx rl allUsers w) = allUsers)
   \<and> set (fst (FindRandomRequesters_orgs prctx rl allUsers w))
        = set allUsers \<union> set (orgSource prctx rl w)
   \<and> (FindRandomRequesters prctx result w = Inr ((us, Some e), w')
    \<longrightarrow> (\<exists>e0 c perms c'. ListRepositoryCollaborators prctx c = ((perms, Some e0), c')
            \<and> e = Wrap e0 ''Unable to list repository collaborators''))"
proof (intro conjI impI)
  assume a: "(\<forall>org team c. snd (fst (ListTeamMembers prctx org team c)) \<noteq> None)
      \<and> FindRandomRequesters_teams prctx rl allUsers w = Inr (pool, w1)"
  show "pool = allUsers"
  proof (cases "length (Teams rl) > 0")
    case False
    with a show ?thesis by (simp add: FindRandomRequesters_teams_def)
  next
    case True
    with a obtain tm err where s: "selectTeamMembers prctx (Teams rl) w = Inr ((tm, err), w1)"
      and p: "pool = shoveIntoMap allUsers tm"
      by (cases "selectTeamMembers prctx (Teams rl) w")
         (auto simp: FindRandomRequesters_teams_def)
    from selectTeamMembers_failed[OF a[THEN conjunct1] s] p show ?thesis by simp
  qed
next
  assume "\<forall>org c. \<exists>e. fst (ListOrganizationMembers prctx org c) = ([], Some e)"
  then have "\<And>org c. fst (fst (ListOrganizationMembers prctx org c)) = []"
    by (metis fst_conv)
  then have "orgSource prctx rl w = []"
    by (simp add: orgSource_def)
  then show "fst (FindRandomRequesters_orgs prctx rl allUsers w) = allUsers"
    by (simp add: orgs_pool)
next
  show "set (fst (FindRandomRequesters_orgs prctx rl allUsers w))
        = set allUsers \<union> set (orgSource prctx rl w)"
    using orgs_union[of prctx rl allUsers w] by (metis prod.collapse)
next
  assume "FindRandomRequesters prctx result w = Inr ((us, Some e), w')"
  then show "\<exists>e0 c perms c'. ListRepositoryCollaborators prctx c = ((perms, Some e0), c')
            \<and> e = Wrap e0 ''Unable to list repository collaborators''"
    unfolding FindRandomRequesters_def by (rule leaf_loop_error_source)
qed

theorem member_listing_failures_not_fatal_witness:
  "FindRandomRequesters_teams teamFails teamRule [''a''] (world0 randZero (\<lambda>_ ks. ks))
     = Inr ([''a''],
            \<lparr>rnd = randZero\<lparr>used := 1\<rparr>, prstate = 1,
             calls = [CallListTeamMembers ''org'' ''team1''],
             nranges = 0, mapOrder = (\<lambda>_ ks. ks)\<rparr>)
   \<and> FindRandomRequesters teamFails (Result StatusPending None teamRule [])
        (world0 randZero (\<lambda>_ ks. ks))
      = Inr (([''a''], None),
             \<lparr>rnd = randZero\<lparr>used := 1\<rparr>, prstate = 2,
              calls = [CallListTeamMembers ''org'' ''team1'', CallListRepositoryCollaborators],
              nranges = 1, mapOrder = (\<lambda>_ ks. ks)\<rparr>)
   \<and> fst (FindRandomRequesters_orgs orgFails orgRule [''a''] (world0 randZero (\<lambda>_ ks. ks))) = [''a'']
   \<and> (\<exists>e0 c perms c'.
         ListRepositoryCollaborators (flakyContext ''bob'' (readers [''a'', ''b''])) c
           = ((perms, Some e0), c')
         \<and> Wrap (New ''unavailable'') ''Unable to list repository collaborators''
           = Wrap e0 ''Unable to list repository collaborators'')"
proof -
  let ?w = "world0 randZero (\<lambda>_ ks. ks)"
  let ?w1 = "\<lparr>rnd = randZero\<lparr>used := 1\<rparr>, prstate = 1,
             calls = [CallListTeamMembers ''org'' ''team1''],
             nranges = 0, mapOrder = (\<lambda>_ ks. ks)\<rparr> :: nat world"
  obtain pool where t: "FindRandomRequesters_teams teamFails teamRule [''a''] ?w = Inr (pool, ?w1)"
    by (simp add: world_eval teamFails_def teamRule_def randZero_def)
  have h1: "(\<forall>org team c. snd (fst (ListTeamMembers teamFails org team c)) \<noteq> None)
      \<and> FindRandomRequesters_teams teamFails teamRule [''a''] ?w = Inr (pool, ?w1)"
    using t by (simp add: teamFails_def staticContext_def)
  note c1 = member_listing_failures_not_fatal [where prctx = teamFails and rl = teamRule
      and allUsers = "[''a'']" and w = ?w and pool = pool and ?w1.0 = ?w1,
      THEN conjunct1, THEN mp, OF h1]
  from c1 t have a: "FindRandomRequesters_teams teamFails teamRule [''a''] ?w = Inr ([''a''], ?w1)"
    by simp
  have b: "FindRandomRequesters teamFails (Result StatusPending None teamRule []) ?w
      = Inr (([''a''], None),
             \<lparr>rnd = randZero\<lparr>used := 1\<rparr>, prstate = 2,
              calls = [CallListTeamMembers ''org'' ''team1'', CallListRepositoryCollaborators],
              nranges = 1, mapOrder = (\<lambda>_ ks. ks)\<rparr>)"
    by (simp add: world_eval teamFails_def teamRule_def randZero_def)
  have h2: "\<forall>org c. \<exists>e. fst (ListOrganizationMembers orgFails org c) = ([], Some e)"
    by (simp add: orgFails_def staticContext_def)
  note c2 = member_listing_failures_not_fatal [where prctx = orgFails and rl = orgRule
      and allUsers = "[''a'']" and w = ?w,
      THEN conjunct2, THEN conjunct1, THEN mp, OF h2]
  let ?flaky = "flakyContext ''bob'' (readers [''a'', ''b''])"
  have h4: "FindRandomRequesters ?flaky treeMixed ?w
      = Inr (([], Some (Wrap (New ''unavailable'') ''Unable to list repository collaborators'')),
             \<lparr>rnd = randZero, prstate = 2,
              calls = [CallListRepositoryCollaborators, CallListRepositoryCollaborators],
              nranges = 1, mapOrder = (\<lambda>_ ks. ks)\<rparr>)"
    by (simp add: world_eval treeMixed_def leafA_def leafB_def leafFailed_def randZero_def)
  note c4 = member_listing_failures_not_fatal [where prctx = ?flaky and result = treeMixed
      and w = ?w, THEN conjunct2, THEN conjunct2, THEN conjunct2, THEN mp, OF h4]
  from a b c2 c4 show ?thesis by blast
qed

text \<open>
  C6: a failure of the team or of the organization listing surfaces no error and leaves
  the candidate pool exactly as it was before the failed step. The code, whose warning
  says that it is skipping the organization members, does not do so: the block stores
  the members that come with the error. Here the listing of \<open>acme\<close> answers an error
  together with the member \<open>mallory\<close>; the pool \<open>[a]\<close> becomes \<open>[a, mallory]\<close>, and
  \<open>mallory\<close>, a collaborator, is returned as a reviewer.
\<close>

theorem failed_org_listing_adds_members:
  "FindRandomRequesters_orgs orgFailsWithMember orgRule [''a''] (world0 randZero (\<lambda>_ ks. ks))
     = ([''a'', ''mallory''],
        \<lparr>rnd = randZero\<lparr>used := 1\<rparr>, prstate = 1, calls = [CallListOrganizationMembers ''acme''],
         nranges = 0, mapOrder = (\<lambda>_ ks. ks)\<rparr>)
   \<and> snd (fst (ListOrganizationMembers orgFailsWithMember ''acme'' 0)) = Some (New ''listing failed'')
   \<and> FindRandomRequesters orgFailsWithMember (Result StatusPending None orgRule [])
        (world0 randZero (\<lambda>_ ks. ks))
      = Inr (([''a'', ''mallory''], None),
             \<lparr>rnd = randZero\<lparr>used := 1\<rparr>, prstate = 2,
              calls = [CallListOrganizationMembers ''acme'', CallListRepositoryCollaborators],
              nranges = 1, mapOrder = (\<lambda>_ ks. ks)\<rparr>)"
  by (simp add: world_eval orgFailsWithMember_def orgRule_def randZero_def)

section \<open>What the admin and write-collaborator blocks collect\<close>

text \<open>
  The loop collects the permission levels \<open>c\<close> stored in the map for which the map,
  indexed with \<open>c\<close> itself, holds the level looked for: an identity is added only when
  its name is one of the levels stored in the map.
\<close>

lemma collected_are_levels:
  "set (collectPermission perms level ks []) =
     {c. (\<exists>k\<in>set ks. mapIndex perms k = c) \<and> mapIndex perms c = level}"
  by (auto simp: set_collectPermission)

text \<open>
  C4: with the any-admin flag, every identity whose level in the permission map is admin
  is added to the candidate pool of the leaf, and likewise for the any-write-collaborator
  flag and the level write. The code does not do so. In a permission map where \<open>alice\<close>
  is an admin and \<open>carol\<close> has write permission, a rule with the any-admin flag, and
  likewise a rule with the any-write-collaborator flag, reaches the filter with an empty
  candidate pool, and no reviewer is returned.
\<close>

theorem admin_expansion_misses_admins:
  "FindRandomRequesters_candidates
     (staticContext ''bob'' ([], None) ([], None) (alicePerms, None)) adminRule
     (world0 randZero (\<lambda>_ ks. ks))
     = Inr (Inr (alicePerms, []),
            \<lparr>rnd = randZero, prstate = 1, calls = [CallListRepositoryCollaborators],
             nranges = 1, mapOrder = (\<lambda>_ ks. ks)\<rparr>)
   \<and> FindRandomRequesters_candidates
     (staticContext ''bob'' ([], None) ([], None) (alicePerms, None)) writeRule
     (world0 randZero (\<lambda>_ ks. ks))
     = Inr (Inr (alicePerms, []),
            \<lparr>rnd = randZero, prstate = 1, calls = [CallListRepositoryCollaborators],
             nranges = 1, mapOrder = (\<lambda>_ ks. ks)\<rparr>)
   \<and> FindRandomRequesters
     (staticContext ''bob'' ([], None) ([], None) (alicePerms, None))
     (Result StatusPending None adminRule []) (world0 randZero (\<lambda>_ ks. ks))
     = Inr (([], None),
            \<lparr>rnd = randZero, prstate = 1, calls = [CallListRepositoryCollaborators],
             nranges = 2, mapOrder = (\<lambda>_ ks. ks)\<rparr>)
   \<and> mapIndex alicePerms ''alice'' = GithubAdminPermission
   \<and> mapIndex alicePerms ''carol'' = GithubWritePermission"
  by (simp add: world_eval adminRule_def writeRule_def alicePerms_def randZero_def)

end
